theory Spec2Isabelle
  imports Main "HOL-Library.AList"
begin

section \<open>mergepath: merging directory trees without duplicate content\<close>

text \<open>
  The program (package main, one Go file) walks every source root, hashes each file it
  finds and copies or moves it below the destination root unless a file with the same
  SHA-256 digest was already placed during the run. The development embeds the latest
  revision of the file (the one whose work items carry \<open>srcPath\<close> and \<open>dstPath\<close>):
  \<open>Copy\<close>, \<open>processFile\<close>, \<open>hashFile\<close>, \<open>hashFiles\<close>, \<open>getPathProcessor\<close> and the
  loop of \<open>main\<close>. The operating system, the Go standard library and the key-value
  store are not part of the repository; they are modelled below from their documented
  behaviour, with every failure the environment can cause given as an explicit input.

  The repository holds two earlier revisions of the same file as well. They agree with
  the latest one on \<open>Copy\<close> and on the test \<open>!info.IsDir()\<close> of the callback; in them a
  failed rename is not followed by a copy, and the destination of an entry is the
  destination root joined with the whole source path.
\<close>

subsection \<open>Go standard library: strings and path/filepath (Unix)\<close>

type_synonym path = string

text \<open>\<open>strings.Index\<close>: the position of the first occurrence of \<open>sep\<close> in \<open>s\<close>.\<close>

fun strings_Index :: "string \<Rightarrow> string \<Rightarrow> nat option" where
  "strings_Index [] sep = (if sep = [] then Some 0 else None)"
| "strings_Index (c # s) sep =
     (if take (length sep) (c # s) = sep then Some 0
      else map_option Suc (strings_Index s sep))"

text \<open>
  \<open>utf8.DecodeRuneInString\<close>, the width only: the number of bytes of the first rune of
  a non-empty string; an invalid or truncated encoding has width 1.
\<close>

definition utf8_cont :: "string \<Rightarrow> nat \<Rightarrow> nat \<Rightarrow> nat \<Rightarrow> bool" where
  "utf8_cont s i lo hi = (i < length s \<and> lo \<le> of_char (s ! i) \<and> of_char (s ! i) \<le> (hi::nat))"

definition utf8_size :: "string \<Rightarrow> nat" where
  "utf8_size s =
     (case s of [] \<Rightarrow> 0
      | c # _ \<Rightarrow>
        (let b = (of_char c :: nat);
             sz = (if 194 \<le> b \<and> b \<le> 223 then 2
                   else if 224 \<le> b \<and> b \<le> 239 then 3
                   else if 240 \<le> b \<and> b \<le> 244 then 4 else 1);
             lo = (if b = 224 then 160 else if b = 240 then 144 else 128);
             hi = (if b = 237 then 159 else if b = 244 then 143 else 191)
         in if sz = 1 \<or> length s < sz then 1
            else if \<not> utf8_cont s 1 lo hi then 1
            else if sz = 2 then 2
            else if \<not> utf8_cont s 2 128 191 then 1
            else if sz = 3 then 3
            else if \<not> utf8_cont s 3 128 191 then 1
            else 4))"

text \<open>
  \<open>strings.SplitN(s, sep, n)\<close>. With an empty separator the string is split after
  each rune (\<open>explode\<close>); otherwise at the first \<open>n - 1\<close> occurrences of \<open>sep\<close>
  (\<open>genSplit\<close>, whose last argument is the number of cuts still allowed).
\<close>

fun explode :: "string \<Rightarrow> nat \<Rightarrow> string list" where
  "explode s 0 = []"
| "explode s (Suc k) =
     (if s = [] then []
      else if k = 0 \<or> drop (utf8_size s) s = [] then [s]
      else take (utf8_size s) s # explode (drop (utf8_size s) s) k)"

fun genSplit :: "string \<Rightarrow> string \<Rightarrow> nat \<Rightarrow> string list" where
  "genSplit s sep 0 = [s]"
| "genSplit s sep (Suc k) =
     (case strings_Index s sep of
        None \<Rightarrow> [s]
      | Some m \<Rightarrow> take m s # genSplit (drop (m + length sep) s) sep k)"

definition strings_SplitN :: "string \<Rightarrow> string \<Rightarrow> int \<Rightarrow> string list" where
  "strings_SplitN s sep n =
     (if n = 0 then []
      else if sep = [] then explode s (if n < 0 then length s else nat n)
      else genSplit s sep (if n < 0 then length s else nat n - 1))"

text \<open>
  \<open>filepath.Clean\<close>: the path is cut at every separator; empty elements and \<open>.\<close> are
  dropped, \<open>..\<close> removes the element before it (it is kept at the front of a relative
  path and dropped at the root), and the empty result is \<open>.\<close>.
\<close>

fun split_sep :: "string \<Rightarrow> string list" where
  "split_sep [] = [[]]"
| "split_sep (c # s) =
     (if c = CHR ''/'' then [] # split_sep s
      else (case split_sep s of [] \<Rightarrow> [[c]] | e # es \<Rightarrow> (c # e) # es))"

fun join_sep :: "string list \<Rightarrow> string" where
  "join_sep [] = []"
| "join_sep [e] = e"
| "join_sep (e # es) = e @ ''/'' @ join_sep es"

definition clean_elem :: "bool \<Rightarrow> string list \<Rightarrow> string \<Rightarrow> string list" where
  "clean_elem rooted out e =
     (if e = [] \<or> e = ''.'' then out
      else if e = ''..'' then
        (if out \<noteq> [] \<and> last out \<noteq> ''..'' then butlast out
         else if \<not> rooted then out @ [''..'']
         else out)
      else out @ [e])"

definition filepath_Clean :: "path \<Rightarrow> path" where
  "filepath_Clean p =
     (if p = [] then ''.''
      else
        (let rooted = (hd p = CHR ''/'');
             out = foldl (clean_elem rooted) [] (split_sep p);
             r = (if rooted then ''/'' else []) @ join_sep out
         in if r = [] then ''.'' else r))"

text \<open>
  \<open>filepath.Join\<close>: the elements from the first non-empty one on, joined by the
  separator and cleaned; the empty string when every element is empty.
\<close>

definition filepath_Join :: "string list \<Rightarrow> path" where
  "filepath_Join elem =
     (case dropWhile (\<lambda>e. e = []) elem of
        [] \<Rightarrow> []
      | es \<Rightarrow> filepath_Clean (join_sep es))"

text \<open>\<open>filepath.Dir\<close>: everything up to the last separator, cleaned.\<close>

definition filepath_Dir :: "path \<Rightarrow> path" where
  "filepath_Dir p = filepath_Clean (rev (dropWhile (\<lambda>c. c \<noteq> CHR ''/'') (rev p)))"

subsection \<open>Errors, the file system and the calls into package os\<close>

text \<open>
  Error values: \<open>filepath.SkipDir\<close>, \<open>db.ErrNotFound\<close>, any other failure of the
  key-value store (\<open>ErrDB\<close>), and the errno values the system calls of the model return.
  A run-time panic is not an error value: it ends the program.
\<close>

datatype error = SkipDir | ErrNotFound | ErrDB | ENOENT | EEXIST | ENOTDIR | EISDIR
  | ENOTEMPTY | EINVAL | EXDEV | EACCES | EIO | ENOSPC

datatype panic = NilDereference | IndexOutOfRange

text \<open>
  A file system is an association list from path names to nodes: a file with its bytes,
  or a directory. A path is present when it is a key; paths are compared as strings.
\<close>

datatype node = File string | Dir

type_synonym filesystem = "(path \<times> node) list"

text \<open>
  The failures the environment injects into one call of \<open>Copy\<close>: an entry \<open>Some e\<close>
  makes the corresponding call fail with \<open>e\<close> whatever the state of the file system
  (permissions, a full disk, a device error); \<open>copy_err = Some (n, e)\<close> makes the byte
  stream fail with \<open>e\<close> after \<open>n\<close> bytes have reached the destination.
\<close>

record io_faults =
  open_err :: "error option"
  mkdirall_err :: "error option"
  create_err :: "error option"
  copy_err :: "(nat \<times> error) option"
  close_err :: "error option"
  remove_err :: "error option"

text \<open>The failures injected while the merge engine handles one work item.\<close>

record faults =
  get_fails :: bool
  mkdir_err :: "error option"
  rename_err :: "error option"
  copy_faults :: io_faults

definition has_children :: "filesystem \<Rightarrow> path \<Rightarrow> bool" where
  "has_children fs p = list_ex (\<lambda>(q, n). q \<noteq> p \<and> filepath_Dir q = p) fs"

text \<open>
  \<open>os.MkdirAll\<close> (called on cleaned paths only): every missing directory on the way
  to \<open>p\<close> is created, outermost first; a file in the way is \<open>ENOTDIR\<close>; a directory
  that exists is left alone.
\<close>

definition ancestors :: "path \<Rightarrow> path list" where
  "ancestors p =
     (let es = filter (\<lambda>e. e \<noteq> []) (split_sep p);
          pre = (if p \<noteq> [] \<and> hd p = CHR ''/'' then ''/'' else [])
      in map (\<lambda>k. pre @ join_sep (take k es)) [1..<Suc (length es)])"

fun mkdir_chain :: "path list \<Rightarrow> filesystem \<Rightarrow> error option \<times> filesystem" where
  "mkdir_chain [] fs = (None, fs)"
| "mkdir_chain (p # ps) fs =
     (case map_of fs p of
        Some Dir \<Rightarrow> mkdir_chain ps fs
      | Some (File c) \<Rightarrow> (Some ENOTDIR, fs)
      | None \<Rightarrow> mkdir_chain ps (AList.update p Dir fs))"

definition os_MkdirAll :: "error option \<Rightarrow> path \<Rightarrow> filesystem \<Rightarrow> error option \<times> filesystem" where
  "os_MkdirAll flt p fs =
     (case flt of
        Some e \<Rightarrow> (Some e, fs)
      | None \<Rightarrow> if p = [] then (Some ENOENT, fs) else mkdir_chain (ancestors p) fs)"

text \<open>\<open>os.Open\<close>: the node read through the descriptor, or the error.\<close>

definition os_Open :: "error option \<Rightarrow> path \<Rightarrow> filesystem \<Rightarrow> error + node" where
  "os_Open flt p fs =
     (case flt of
        Some e \<Rightarrow> Inl e
      | None \<Rightarrow> (case map_of fs p of None \<Rightarrow> Inl ENOENT | Some n \<Rightarrow> Inr n))"

text \<open>
  \<open>os.OpenFile(dst, O_WRONLY | O_CREATE | O_EXCL, 0640)\<close>: fails with \<open>EEXIST\<close> when
  anything is present at the path; otherwise an empty file is created in its (existing)
  parent directory.
\<close>

definition os_OpenFile_excl :: "error option \<Rightarrow> path \<Rightarrow> filesystem \<Rightarrow> error option \<times> filesystem" where
  "os_OpenFile_excl flt p fs =
     (case flt of
        Some e \<Rightarrow> (Some e, fs)
      | None \<Rightarrow>
          if map_of fs p \<noteq> None then (Some EEXIST, fs)
          else (case map_of fs (filepath_Dir p) of
                  None \<Rightarrow> (Some ENOENT, fs)
                | Some (File c) \<Rightarrow> (Some ENOTDIR, fs)
                | Some Dir \<Rightarrow> if p = [] then (Some ENOENT, fs)
                              else (None, AList.update p (File []) fs)))"

text \<open>
  \<open>io.Copy(dstFd, srcFd)\<close>: the bytes of the source reach the destination file; reading
  a directory fails with \<open>EISDIR\<close> before any byte is written; an injected failure
  leaves the first \<open>n\<close> bytes in the destination.
\<close>

definition io_Copy :: "(nat \<times> error) option \<Rightarrow> path \<Rightarrow> node \<Rightarrow> filesystem \<Rightarrow> error option \<times> filesystem" where
  "io_Copy flt dst srcFd fs =
     (case srcFd of
        Dir \<Rightarrow> (Some EISDIR, fs)
      | File c \<Rightarrow>
          (case flt of
             None \<Rightarrow> (None, AList.update dst (File c) fs)
           | Some (n, e) \<Rightarrow> (Some e, AList.update dst (File (take n c)) fs)))"

text \<open>\<open>os.Remove\<close>: removes a file or an empty directory.\<close>

definition os_Remove :: "error option \<Rightarrow> path \<Rightarrow> filesystem \<Rightarrow> error option \<times> filesystem" where
  "os_Remove flt p fs =
     (case flt of
        Some e \<Rightarrow> (Some e, fs)
      | None \<Rightarrow>
          (case map_of fs p of
             None \<Rightarrow> (Some ENOENT, fs)
           | Some (File c) \<Rightarrow> (None, AList.delete p fs)
           | Some Dir \<Rightarrow> if has_children fs p then (Some ENOTEMPTY, fs)
                         else (None, AList.delete p fs)))"

text \<open>
  \<open>os.Rename\<close> (rename(2)): a file replaces a file at the new path and cannot replace
  a directory; a directory moves with everything below it and can only replace an empty
  directory; a failed rename changes nothing. \<open>EXDEV\<close> (the two paths are on different
  volumes) is one of the injected failures.
\<close>

definition inside :: "path \<Rightarrow> path \<Rightarrow> bool" where
  "inside d q = (take (Suc (length d)) q = d @ ''/'')"

definition move_tree :: "path \<Rightarrow> path \<Rightarrow> filesystem \<Rightarrow> filesystem" where
  "move_tree src dst fs =
     map (\<lambda>(q, n). (if q = src then dst
                     else if inside src q then dst @ drop (length src) q
                     else q, n))
       (AList.delete dst fs)"

definition os_Rename :: "error option \<Rightarrow> path \<Rightarrow> path \<Rightarrow> filesystem \<Rightarrow> error option \<times> filesystem" where
  "os_Rename flt src dst fs =
     (case flt of
        Some e \<Rightarrow> (Some e, fs)
      | None \<Rightarrow>
          (case map_of fs src of
             None \<Rightarrow> (Some ENOENT, fs)
           | Some n \<Rightarrow>
               if src = dst then (None, fs)
               else (case map_of fs (filepath_Dir dst) of
                       None \<Rightarrow> (Some ENOENT, fs)
                     | Some (File c) \<Rightarrow> (Some ENOTDIR, fs)
                     | Some Dir \<Rightarrow>
                         (case n of
                            File c \<Rightarrow>
                              (if map_of fs dst = Some Dir then (Some EISDIR, fs)
                               else (None, AList.update dst (File c) (AList.delete src fs)))
                          | Dir \<Rightarrow>
                              (case map_of fs dst of
                                 Some (File c) \<Rightarrow> (Some ENOTDIR, fs)
                               | Some Dir \<Rightarrow>
                                   if inside src dst then (Some EINVAL, fs)
                                   else if has_children fs dst then (Some ENOTEMPTY, fs)
                                   else (None, move_tree src dst fs)
                               | None \<Rightarrow>
                                   if inside src dst then (Some EINVAL, fs)
                                   else (None, move_tree src dst fs))))))"

subsection \<open>Copy\<close>

text \<open>
  \<open>func Copy(src, dst string) (err error)\<close>. The result is the returned error (\<open>None\<close>
  is nil) and the file system the call leaves behind.
  \<^item> \<open>os.Open(src)\<close> fails: return the error.
  \<^item> \<open>os.MkdirAll(filepath.Dir(dst))\<close> fails: return the error.
  \<^item> the exclusive \<open>os.OpenFile\<close> of \<open>dst\<close> fails: return the error.
  \<^item> \<open>_, err = io.Copy(dstFd, srcFd)\<close>; then, when \<open>dstFd.Close()\<close> fails, return
    \<open>err\<close> if it is set and the error of \<open>Close\<close> otherwise;
  \<^item> when \<open>Close\<close> succeeded and \<open>err\<close> is set, call \<open>os.Remove(dst)\<close> and drop its
    result; return \<open>err\<close>.
\<close>

definition Copy :: "io_faults \<Rightarrow> path \<Rightarrow> path \<Rightarrow> filesystem \<Rightarrow> error option \<times> filesystem" where
  "Copy flt src dst fs =
     (case os_Open (open_err flt) src fs of
        Inl err \<Rightarrow> (Some err, fs)
      | Inr srcFd \<Rightarrow>
          (case os_MkdirAll (mkdirall_err flt) (filepath_Dir dst) fs of
             (Some err, fs1) \<Rightarrow> (Some err, fs1)
           | (None, fs1) \<Rightarrow>
               (case os_OpenFile_excl (create_err flt) dst fs1 of
                  (Some err, fs2) \<Rightarrow> (Some err, fs2)
                | (None, fs2) \<Rightarrow>
                    (case io_Copy (copy_err flt) dst srcFd fs2 of
                       (err, fs3) \<Rightarrow>
                         (case close_err flt of
                            Some errClose \<Rightarrow>
                              (if err \<noteq> None then (err, fs3) else (Some errClose, fs3))
                          | None \<Rightarrow>
                              (if err \<noteq> None
                               then (err, snd (os_Remove (remove_err flt) dst fs3))
                               else (err, fs3)))))))"

subsection \<open>The digest index and processFile\<close>

record fileEntry =
  srcPath :: path
  dstPath :: path
  csum :: string

text \<open>
  Modelled from the spec: the key-value store behind \<open>dbh\<close> (package leveldb, which is
  not part of the repository) is a map from keys to values; \<open>Get\<close> returns the value,
  \<open>db.ErrNotFound\<close> for an absent key, or another error when the lookup itself fails;
  \<open>Set\<close> stores the value (the program drops whatever \<open>Set\<close> returns).
\<close>

type_synonym leveldb = "string \<rightharpoonup> string"

definition db_Get :: "bool \<Rightarrow> leveldb \<Rightarrow> string \<Rightarrow> string \<times> error option" where
  "db_Get fails dbh key =
     (if fails then ([], Some ErrDB)
      else (case dbh key of None \<Rightarrow> ([], Some ErrNotFound) | Some v \<Rightarrow> (v, None)))"

definition db_Set :: "leveldb \<Rightarrow> string \<Rightarrow> string \<Rightarrow> leveldb" where
  "db_Set dbh key v = dbh(key \<mapsto> v)"

text \<open>
  What the program prints with \<open>fmt.Printf\<close> (the \<open>DEBUG\<close> printer is the function
  that prints nothing), and what happened to a work item: these are the four ways through
  the body of the loop of \<open>processFile\<close>.
  \<^item> \<open>Transferred\<close>: the rename or the copy returned nil and \<open>dbh.Set\<close> was reached;
  \<^item> \<open>TransferFailed\<close>: one of the three \<open>continue\<close> statements after a failed
    \<open>MkdirAll\<close> or \<open>Copy\<close>;
  \<^item> \<open>Duplicate\<close>: \<open>Get\<close> returned nil;
  \<^item> \<open>LookupError\<close>: \<open>Get\<close> returned an error other than \<open>db.ErrNotFound\<close>.
\<close>

datatype message =
    MsgError error
  | MsgRenameFailed path path
  | MsgCopyFailed path path error
  | MsgLookupFailed path error
  | MsgHashFailed path error

datatype outcome = Transferred | TransferFailed | Duplicate | LookupError

record world =
  index :: leveldb
  files :: filesystem
  stdout :: "message list"

definition say :: "message \<Rightarrow> world \<Rightarrow> world" where
  "say m w = w\<lparr>stdout := stdout w @ [m]\<rparr>"

text \<open>
  The body of the loop of \<open>processFile\<close> for one received entry. \<open>recorded\<close> is the
  statement \<open>dbh.Set(fent.csum, []byte(fent.srcPath), nil)\<close> that both modes reach
  after a transfer that did not fail.
\<close>

definition processEntry :: "bool \<Rightarrow> fileEntry \<Rightarrow> faults \<Rightarrow> world \<Rightarrow> outcome \<times> world" where
  "processEntry move fent flt w =
     (case db_Get (get_fails flt) (index w) (csum fent) of
        (v, Some err) \<Rightarrow>
          if err = ErrNotFound then
            (let recorded = (\<lambda>w'. (Transferred,
                         w'\<lparr>index := db_Set (index w') (csum fent) (srcPath fent)\<rparr>))
             in
             if move then
               (case os_MkdirAll (mkdir_err flt) (filepath_Dir (dstPath fent)) (files w) of
                  (Some err, fs1) \<Rightarrow> (TransferFailed, say (MsgError err) (w\<lparr>files := fs1\<rparr>))
                | (None, fs1) \<Rightarrow>
                    (case os_Rename (rename_err flt) (srcPath fent) (dstPath fent) fs1 of
                       (Some err, fs2) \<Rightarrow>
                         (let w2 = say (MsgRenameFailed (srcPath fent) (dstPath fent))
                                     (w\<lparr>files := fs2\<rparr>)
                          in case Copy (copy_faults flt) (srcPath fent) (dstPath fent) fs2 of
                               (Some err, fs3) \<Rightarrow>
                                 (TransferFailed,
                                  say (MsgCopyFailed (srcPath fent) (dstPath fent) err)
                                    (w2\<lparr>files := fs3\<rparr>))
                             | (None, fs3) \<Rightarrow> recorded (w2\<lparr>files := fs3\<rparr>))
                     | (None, fs2) \<Rightarrow> recorded (w\<lparr>files := fs2\<rparr>)))
             else
               (case Copy (copy_faults flt) (srcPath fent) (dstPath fent) (files w) of
                  (Some err, fs1) \<Rightarrow>
                    (TransferFailed,
                     say (MsgCopyFailed (srcPath fent) (dstPath fent) err) (w\<lparr>files := fs1\<rparr>))
                | (None, fs1) \<Rightarrow> recorded (w\<lparr>files := fs1\<rparr>)))
          else (LookupError, say (MsgLookupFailed (srcPath fent) err) w)
      | (v, None) \<Rightarrow> (Duplicate, w))"

text \<open>
  \<open>func processFile(dbh, processingCh, move)\<close>: the loop receives from the channel until
  it is closed. The channel is the list of entries it delivers, each with the failures
  the environment causes while the entry is handled; the result lists what happened to
  each entry, in order.
\<close>

fun processFile :: "(fileEntry \<times> faults) list \<Rightarrow> bool \<Rightarrow> world \<Rightarrow> outcome list \<times> world" where
  "processFile [] move w = ([], w)"
| "processFile ((fent, flt) # processingCh) move w =
     (case processEntry move fent flt w of
        (r, w') \<Rightarrow> (case processFile processingCh move w' of (rs, w'') \<Rightarrow> (r # rs, w'')))"

text \<open>The entries of a run that were transferred.\<close>

fun transferred :: "(fileEntry \<times> faults) list \<Rightarrow> outcome list \<Rightarrow> fileEntry list" where
  "transferred ((fent, flt) # items) (r # rs) =
     (if r = Transferred then fent # transferred items rs else transferred items rs)"
| "transferred items rs = []"

text \<open>
  The transfer of an entry as the specification words it, built from the calls into
  package os alone, for comparison with what \<open>processFile\<close> does. Copy mode: \<open>Copy\<close>
  from the source path to the destination path. Move mode: create the missing parent
  directories of the destination, rename the source to the destination, and when the
  rename fails do what copy mode does. The result is the error of the transfer (\<open>None\<close>
  when it succeeded) and the file system it leaves.
\<close>

definition transfer :: "bool \<Rightarrow> fileEntry \<Rightarrow> faults \<Rightarrow> filesystem \<Rightarrow> error option \<times> filesystem" where
  "transfer move fent flt fs =
     (if move then
        (case os_MkdirAll (mkdir_err flt) (filepath_Dir (dstPath fent)) fs of
           (Some err, fs1) \<Rightarrow> (Some err, fs1)
         | (None, fs1) \<Rightarrow>
             (case os_Rename (rename_err flt) (srcPath fent) (dstPath fent) fs1 of
                (None, fs2) \<Rightarrow> (None, fs2)
              | (Some err, fs2) \<Rightarrow> Copy (copy_faults flt) (srcPath fent) (dstPath fent) fs2))
      else Copy (copy_faults flt) (srcPath fent) (dstPath fent) fs)"

subsection \<open>hashFile and hashFiles\<close>

text \<open>
  \<open>func hashFile(path string) (csum []byte, err error)\<close>: the SHA-256 digest of the
  bytes of the file. The hash function (package crypto/sha256) is a parameter.
  \<open>hashFiles\<close> forwards every entry whose digest could be computed and prints a message
  for every other one.
\<close>

definition hashFile :: "(string \<Rightarrow> string) \<Rightarrow> error option \<Rightarrow> error option \<Rightarrow> filesystem \<Rightarrow> path
    \<Rightarrow> string \<times> error option" where
  "hashFile sha256 open_flt read_flt fs p =
     (case os_Open open_flt p fs of
        Inl err \<Rightarrow> ([], Some err)
      | Inr file \<Rightarrow>
          (case file of
             Dir \<Rightarrow> ([], Some EISDIR)
           | File c \<Rightarrow>
               (case read_flt of
                  Some err \<Rightarrow> ([], Some err)
                | None \<Rightarrow> (sha256 c, None))))"

fun hashFiles :: "(string \<Rightarrow> string) \<Rightarrow> filesystem \<Rightarrow> (fileEntry \<times> error option \<times> error option) list
    \<Rightarrow> fileEntry list \<times> message list" where
  "hashFiles sha256 fs [] = ([], [])"
| "hashFiles sha256 fs ((fent, open_flt, read_flt) # hashingCh) =
     (case hashFiles sha256 fs hashingCh of
        (processingCh, out) \<Rightarrow>
          (case hashFile sha256 open_flt read_flt fs (srcPath fent) of
             (c, Some err) \<Rightarrow> (processingCh, MsgHashFailed (srcPath fent) err # out)
           | (c, None) \<Rightarrow> (fent\<lparr>csum := c\<rparr> # processingCh, out)))"

subsection \<open>The walker: getPathProcessor, filepath.Walk and the loop of main\<close>

datatype FileMode = ModeRegular | ModeDir | ModeSymlink | ModeNamedPipe | ModeSocket
  | ModeDevice | ModeCharDevice | ModeIrregular

record FileInfo =
  Mode :: FileMode

definition IsDir :: "FileInfo \<Rightarrow> bool" where
  "IsDir info = (Mode info = ModeDir)"

definition IsRegular :: "FileInfo \<Rightarrow> bool" where
  "IsRegular info = (Mode info = ModeRegular)"

text \<open>
  A \<open>filepath.WalkFunc\<close>: the path, the \<open>os.FileInfo\<close> (\<open>None\<close> is the nil interface
  value), the incoming error and the entries sent on \<open>hashingCh\<close> so far; it panics or
  returns the entries sent and its error.
\<close>

type_synonym WalkFunc =
  "path \<Rightarrow> FileInfo option \<Rightarrow> error option \<Rightarrow> fileEntry list
     \<Rightarrow> panic + (fileEntry list \<times> error option)"

text \<open>
  \<open>func getPathProcessor(hashingCh, rootDir, dstDir) filepath.WalkFunc\<close>. The callback
  calls \<open>info.IsDir()\<close> first: a method call on the nil interface value is a run-time
  panic. \<open>strings.SplitN(path, rootDir, 2)[1]\<close> is a run-time panic when the slice has
  fewer than two elements. The callback returns the error it was given.
\<close>

definition getPathProcessor :: "path \<Rightarrow> path \<Rightarrow> WalkFunc" where
  "getPathProcessor rootDir dstDir path info err hashingCh =
     (case info of
        None \<Rightarrow> Inl NilDereference
      | Some i \<Rightarrow>
          if \<not> IsDir i then
            (let parts = strings_SplitN path rootDir 2
             in if length parts \<le> 1 then Inl IndexOutOfRange
                else Inr (hashingCh @
                            [\<lparr>srcPath = path,
                              dstPath = filepath_Join [dstDir, parts ! 1],
                              csum = []\<rparr>], err))
          else Inr (hashingCh, err))"

text \<open>
  What \<open>filepath.Walk\<close> finds below a path: an entry that is not a directory, with its
  mode (with the mode of a directory it stands for a directory without entries); a
  directory with its entries in the order \<open>Walk\<close> reads them; a directory whose entries
  cannot be read; a path whose \<open>Lstat\<close> fails.
\<close>

datatype dirtree =
    Entry FileMode
  | Directory "(string \<times> dirtree) list"
  | Unreadable error
  | Missing error

fun tree_IsDir :: "dirtree \<Rightarrow> bool" where
  "tree_IsDir (Entry m) = (m = ModeDir)"
| "tree_IsDir (Directory names) = True"
| "tree_IsDir (Unreadable e) = True"
| "tree_IsDir (Missing e) = False"

text \<open>
  \<open>filepath.Walk\<close> of the Go standard library, from its documentation and source:
  \<^item> a path whose \<open>Lstat\<close> fails: the callback gets the path, a nil \<open>FileInfo\<close> and the
    error;
  \<^item> an entry that is not a directory: the callback gets its \<open>FileInfo\<close> and no error;
  \<^item> a directory: its names are read, and the callback gets the \<open>FileInfo\<close> and the
    error of reading them; when either that error or the result of the callback is set,
    the directory is not entered and the result of the callback is returned;
  \<^item> each name is joined to the path with \<open>filepath.Join\<close> and walked; a result
    other than nil ends the walk of the directory and is returned, except \<open>SkipDir\<close>
    from a directory (or from the callback on a path whose \<open>Lstat\<close> failed);
  \<^item> \<open>Walk\<close> itself turns a final \<open>SkipDir\<close> into nil.
\<close>

fun walk :: "path \<Rightarrow> dirtree \<Rightarrow> WalkFunc \<Rightarrow> fileEntry list \<Rightarrow> panic + (fileEntry list \<times> error option)"
and walk_names :: "path \<Rightarrow> (string \<times> dirtree) list \<Rightarrow> WalkFunc \<Rightarrow> fileEntry list
    \<Rightarrow> panic + (fileEntry list \<times> error option)" where
  "walk path (Entry m) walkFn ch = walkFn path (Some \<lparr>Mode = m\<rparr>) None ch"
| "walk path (Missing e) walkFn ch = walkFn path None (Some e) ch"
| "walk path (Unreadable e) walkFn ch = walkFn path (Some \<lparr>Mode = ModeDir\<rparr>) (Some e) ch"
| "walk path (Directory names) walkFn ch =
     (case walkFn path (Some \<lparr>Mode = ModeDir\<rparr>) None ch of
        Inl p \<Rightarrow> Inl p
      | Inr (ch1, err1) \<Rightarrow>
          if err1 \<noteq> None then Inr (ch1, err1) else walk_names path names walkFn ch1)"
| "walk_names path [] walkFn ch = Inr (ch, None)"
| "walk_names path ((name, t) # names) walkFn ch =
     (let filename = filepath_Join [path, name]
      in case t of
           Missing e \<Rightarrow>
             (case walkFn filename None (Some e) ch of
                Inl p \<Rightarrow> Inl p
              | Inr (ch1, err) \<Rightarrow>
                  if err \<noteq> None \<and> err \<noteq> Some SkipDir then Inr (ch1, err)
                  else walk_names path names walkFn ch1)
         | _ \<Rightarrow>
             (case walk filename t walkFn ch of
                Inl p \<Rightarrow> Inl p
              | Inr (ch1, err) \<Rightarrow>
                  if err \<noteq> None \<and> (\<not> tree_IsDir t \<or> err \<noteq> Some SkipDir) then Inr (ch1, err)
                  else walk_names path names walkFn ch1))"

definition filepath_Walk :: "path \<Rightarrow> dirtree \<Rightarrow> WalkFunc \<Rightarrow> fileEntry list
    \<Rightarrow> panic + (fileEntry list \<times> error option)" where
  "filepath_Walk root t fn ch =
     (case walk root t fn ch of
        Inl p \<Rightarrow> Inl p
      | Inr (ch1, err) \<Rightarrow> Inr (ch1, if err = Some SkipDir then None else err))"

text \<open>
  The loop of \<open>main\<close>: \<open>for _, d := range flag.Args()[1:]\<close> walks each root with the
  callback for that root and drops what \<open>Walk\<close> returns. A panic ends the program.
\<close>

fun walk_roots :: "path \<Rightarrow> (path \<times> dirtree) list \<Rightarrow> fileEntry list \<Rightarrow> panic + fileEntry list" where
  "walk_roots dst [] hashingCh = Inr hashingCh"
| "walk_roots dst ((d, t) # ds) hashingCh =
     (case filepath_Walk d t (getPathProcessor d dst) hashingCh of
        Inl p \<Rightarrow> Inl p
      | Inr (ch1, err) \<Rightarrow> walk_roots dst ds ch1)"

text \<open>
  The entries below a root that are not directories, in the order of the walk, named by
  the path of their directory, a separator and their own name. A tree is readable when
  no \<open>Lstat\<close> and no directory listing in it fails and every name is the name of a
  directory entry.
\<close>

definition child_path :: "path \<Rightarrow> string \<Rightarrow> path" where
  "child_path p name = (if p = ''/'' then p @ name else p @ ''/'' @ name)"

definition valid_name :: "string \<Rightarrow> bool" where
  "valid_name name = (name \<noteq> [] \<and> CHR ''/'' \<notin> set name \<and> name \<noteq> ''.'' \<and> name \<noteq> ''..'')"

fun nondirs :: "path \<Rightarrow> dirtree \<Rightarrow> path list"
and nondirs_names :: "path \<Rightarrow> (string \<times> dirtree) list \<Rightarrow> path list" where
  "nondirs p (Entry m) = (if m = ModeDir then [] else [p])"
| "nondirs p (Directory names) = nondirs_names p names"
| "nondirs p (Unreadable e) = []"
| "nondirs p (Missing e) = []"
| "nondirs_names p [] = []"
| "nondirs_names p ((name, t) # names) = nondirs (child_path p name) t @ nondirs_names p names"

fun readable :: "dirtree \<Rightarrow> bool"
and readable_names :: "(string \<times> dirtree) list \<Rightarrow> bool" where
  "readable (Entry m) = True"
| "readable (Directory names) = readable_names names"
| "readable (Unreadable e) = False"
| "readable (Missing e) = False"
| "readable_names [] = True"
| "readable_names ((name, t) # names) = (valid_name name \<and> readable t \<and> readable_names names)"

text \<open>
  The work item for the entry at path \<open>p\<close> below \<open>root\<close>: its destination is the
  destination root joined with what follows the root in \<open>p\<close>.
\<close>

definition emitted :: "path \<Rightarrow> path \<Rightarrow> path \<Rightarrow> fileEntry" where
  "emitted root dst p =
     \<lparr>srcPath = p, dstPath = filepath_Join [dst, drop (length root) p], csum = []\<rparr>"

subsection \<open>The pipeline of main: three concurrent parts and two unbuffered channels\<close>

text \<open>
  \<open>main\<close> starts \<open>hashFiles\<close> and \<open>processFile\<close> as goroutines and then walks the
  roots itself. Both channels are unbuffered, so a send and its receive are one step.
  The state holds the entries the walker has still to send, the entry \<open>hashFiles\<close>
  holds, the entry \<open>processFile\<close> works on, the entries whose processing is finished,
  and whether the program has exited. The steps:
  \<^item> \<open>WalkerSend\<close>: the callback's send on \<open>hashingCh\<close> meets the receive of \<open>hashFiles\<close>;
  \<^item> \<open>HashDrop\<close>: \<open>hashFile\<close> failed, the entry is not forwarded;
  \<^item> \<open>HashSend\<close>: the send on \<open>processingCh\<close> meets the receive of \<open>processFile\<close>;
  \<^item> \<open>MergeDone\<close>: \<open>processFile\<close> finished the body of its loop for the entry;
  \<^item> \<open>MainReturn\<close>: the loop over the roots is over and \<open>main\<close> returns. A Go program
    exits when \<open>main\<close> returns, without waiting for other goroutines; \<open>main\<close> waits for
    nothing after its loop.
  No step is possible after the exit.
\<close>

datatype hasher = HIdle | HHolding fileEntry

datatype merger = MIdle | MProcessing fileEntry

record pipeline =
  walker :: "fileEntry list"
  hashing :: hasher
  merging :: merger
  merged :: "fileEntry list"
  exited :: bool

datatype event = WalkerSend | HashDrop | HashSend | MergeDone | MainReturn

definition step :: "event \<Rightarrow> pipeline \<Rightarrow> pipeline option" where
  "step ev s =
     (if exited s then None
      else case ev of
        WalkerSend \<Rightarrow>
          (case (walker s, hashing s) of
             (x # xs, HIdle) \<Rightarrow> Some (s\<lparr>walker := xs, hashing := HHolding x\<rparr>)
           | _ \<Rightarrow> None)
      | HashDrop \<Rightarrow>
          (case hashing s of
             HHolding x \<Rightarrow> Some (s\<lparr>hashing := HIdle\<rparr>)
           | _ \<Rightarrow> None)
      | HashSend \<Rightarrow>
          (case (hashing s, merging s) of
             (HHolding x, MIdle) \<Rightarrow> Some (s\<lparr>hashing := HIdle, merging := MProcessing x\<rparr>)
           | _ \<Rightarrow> None)
      | MergeDone \<Rightarrow>
          (case merging s of
             MProcessing x \<Rightarrow> Some (s\<lparr>merging := MIdle, merged := merged s @ [x]\<rparr>)
           | _ \<Rightarrow> None)
      | MainReturn \<Rightarrow>
          (case walker s of
             [] \<Rightarrow> Some (s\<lparr>exited := True\<rparr>)
           | _ \<Rightarrow> None))"

fun schedule :: "event list \<Rightarrow> pipeline \<Rightarrow> pipeline option" where
  "schedule [] s = Some s"
| "schedule (ev # evs) s = (case step ev s of None \<Rightarrow> None | Some s' \<Rightarrow> schedule evs s')"

definition start :: "fileEntry list \<Rightarrow> pipeline" where
  "start items = \<lparr>walker = items, hashing = HIdle, merging = MIdle, merged = [], exited = False\<rparr>"

subsection \<open>Concrete inputs\<close>

definition no_io_faults :: io_faults where
  "no_io_faults = \<lparr>open_err = None, mkdirall_err = None, create_err = None,
     copy_err = None, close_err = None, remove_err = None\<rparr>"

definition no_faults :: faults where
  "no_faults = \<lparr>get_fails = False, mkdir_err = None, rename_err = None,
     copy_faults = no_io_faults\<rparr>"

text \<open>
  Two roots \<open>A\<close> and \<open>B\<close>: \<open>A/same.txt\<close> holds \<open>foo\<close>; \<open>B/same.txt\<close> and \<open>B/z.txt\<close>
  both hold \<open>bar\<close>. The digests stand for the SHA-256 values of the two contents.
\<close>

definition two_roots :: filesystem where
  "two_roots = [(''A'', Dir), (''A/same.txt'', File ''foo''),
     (''B'', Dir), (''B/same.txt'', File ''bar''), (''B/z.txt'', File ''bar'')]"

definition fresh :: world where
  "fresh = \<lparr>index = Map.empty, files = two_roots, stdout = []\<rparr>"

definition entry_A_same :: fileEntry where
  "entry_A_same = \<lparr>srcPath = ''A/same.txt'', dstPath = ''D/same.txt'', csum = ''digest-foo''\<rparr>"

definition entry_B_same :: fileEntry where
  "entry_B_same = \<lparr>srcPath = ''B/same.txt'', dstPath = ''D/same.txt'', csum = ''digest-bar''\<rparr>"

definition entry_B_z :: fileEntry where
  "entry_B_z = \<lparr>srcPath = ''B/z.txt'', dstPath = ''D/z.txt'', csum = ''digest-bar''\<rparr>"

definition three_items :: "(fileEntry \<times> faults) list" where
  "three_items = [(entry_A_same, no_faults), (entry_B_same, no_faults), (entry_B_z, no_faults)]"

text \<open>
  The state after \<open>A/same.txt\<close> was copied; a destination directory that cannot be
  created; a rename that fails across volumes; a stream that fails after two bytes,
  without and with a failing removal.
\<close>

definition after_A :: world where
  "after_A = snd (processFile [(entry_A_same, no_faults)] False fresh)"

definition mkdir_denied :: faults where
  "mkdir_denied = no_faults\<lparr>mkdir_err := Some EACCES\<rparr>"

definition cross_device :: faults where
  "cross_device = no_faults\<lparr>rename_err := Some EXDEV\<rparr>"

definition broken_stream :: io_faults where
  "broken_stream = no_io_faults\<lparr>copy_err := Some (2, EIO)\<rparr>"

definition broken_stream_and_removal :: io_faults where
  "broken_stream_and_removal = no_io_faults\<lparr>copy_err := Some (2, EIO), remove_err := Some EACCES\<rparr>"

text \<open>
  Directory trees: one with a symbolic link, a subdirectory and a regular file; one with
  a symbolic link and a socket only; one whose first entry is a directory that cannot be
  read; one with a single regular file; one with an unreadable directory between two
  regular files.
\<close>

definition small_tree :: dirtree where
  "small_tree = Directory [(''link'', Entry ModeSymlink), (''sub'', Directory [(''y.txt'', Entry ModeRegular)]),
     (''x.txt'', Entry ModeRegular)]"

definition special_files :: dirtree where
  "special_files = Directory [(''link'', Entry ModeSymlink), (''sock'', Entry ModeSocket)]"

definition unreadable_first :: dirtree where
  "unreadable_first = Directory [(''bad'', Unreadable EACCES), (''z.txt'', Entry ModeRegular)]"

definition dot_tree :: dirtree where
  "dot_tree = Directory [(''x.txt'', Entry ModeRegular)]"

definition error_in_the_middle :: dirtree where
  "error_in_the_middle = Directory ([(''a.txt'', Entry ModeRegular)]
     @ (''bad'', Unreadable EACCES) # [(''z.txt'', Entry ModeRegular)])"

section \<open>Properties\<close>

subsection \<open>The file system calls and Copy leave other paths alone\<close>

lemma mkdir_chain_keeps:
  "map_of fs p = Some n \<Longrightarrow> map_of (snd (mkdir_chain ps fs)) p = Some n"
proof (induction ps arbitrary: fs)
  case Nil
  then show ?case by simp
next
  case (Cons q ps)
  show ?case
  proof (cases "map_of fs q")
    case None
    with Cons.prems have "q \<noteq> p" by auto
    then have "map_of (AList.update q Dir fs) p = Some n"
      using Cons.prems by (simp add: update_conv')
    then show ?thesis using None Cons.IH by simp
  next
    case (Some m)
    then show ?thesis using Cons by (cases m) simp_all
  qed
qed

lemma os_MkdirAll_keeps:
  "map_of fs p = Some n \<Longrightarrow> map_of (snd (os_MkdirAll flt d fs)) p = Some n"
  by (simp add: os_MkdirAll_def mkdir_chain_keeps split: option.splits)

lemma os_OpenFile_excl_None:
  "os_OpenFile_excl flt dst fs = (None, fs') \<Longrightarrow>
     map_of fs dst = None \<and> fs' = AList.update dst (File []) fs"
  by (auto simp: os_OpenFile_excl_def split: option.splits if_splits node.splits)

lemma os_OpenFile_excl_Some:
  "os_OpenFile_excl flt dst fs = (Some e, fs') \<Longrightarrow> fs' = fs"
  by (auto simp: os_OpenFile_excl_def split: option.splits if_splits node.splits)

lemma os_OpenFile_excl_exists:
  "map_of fs dst = Some n \<Longrightarrow> \<exists>e. os_OpenFile_excl flt dst fs = (Some e, fs)"
  by (auto simp: os_OpenFile_excl_def split: option.splits)

lemma io_Copy_other:
  "p \<noteq> dst \<Longrightarrow> map_of (snd (io_Copy flt dst srcFd fs)) p = map_of fs p"
  by (auto simp: io_Copy_def update_conv' split: node.splits option.splits)

lemma os_Remove_other:
  "p \<noteq> dst \<Longrightarrow> map_of (snd (os_Remove flt dst fs)) p = map_of fs p"
  by (auto simp: os_Remove_def delete_conv' split: node.splits option.splits)

lemma os_Open_Inr:
  "os_Open flt src fs = Inr n \<Longrightarrow> map_of fs src = Some n"
  by (auto simp: os_Open_def split: option.splits)

lemma Copy_keeps:
  assumes "map_of fs p = Some n"
  shows "map_of (snd (Copy flt src dst fs)) p = Some n"
proof (cases "os_Open (open_err flt) src fs")
  case (Inl e)
  then show ?thesis using assms by (simp add: Copy_def)
next
  case (Inr srcFd)
  obtain r1 fs1 where mk: "os_MkdirAll (mkdirall_err flt) (filepath_Dir dst) fs = (r1, fs1)"
    by (cases "os_MkdirAll (mkdirall_err flt) (filepath_Dir dst) fs")
  have k1: "map_of fs1 p = Some n"
    using os_MkdirAll_keeps [OF assms, of "mkdirall_err flt" "filepath_Dir dst"] mk by simp
  show ?thesis
  proof (cases r1)
    case (Some e)
    then show ?thesis using Inr mk k1 by (simp add: Copy_def)
  next
    case None
    obtain r2 fs2 where cr: "os_OpenFile_excl (create_err flt) dst fs1 = (r2, fs2)"
      by (cases "os_OpenFile_excl (create_err flt) dst fs1")
    show ?thesis
    proof (cases r2)
      case (Some e)
      then have "fs2 = fs1" using cr os_OpenFile_excl_Some by blast
      then show ?thesis using Inr mk \<open>r1 = None\<close> cr Some k1 by (simp add: Copy_def)
    next
      case None2: None
      from cr None2 have fresh: "map_of fs1 dst = None" and fs2: "fs2 = AList.update dst (File []) fs1"
        using os_OpenFile_excl_None by blast+
      from fresh k1 have ne: "p \<noteq> dst" by auto
      then have k2: "map_of fs2 p = Some n" using k1 fs2 by (simp add: update_conv')
      obtain r3 fs3 where io: "io_Copy (copy_err flt) dst srcFd fs2 = (r3, fs3)"
        by (cases "io_Copy (copy_err flt) dst srcFd fs2")
      have k3: "map_of fs3 p = Some n"
        using io_Copy_other [OF ne, of "copy_err flt" srcFd fs2] io k2 by simp
      have k4: "map_of (snd (os_Remove (remove_err flt) dst fs3)) p = Some n"
        using os_Remove_other [OF ne] k3 by simp
      show ?thesis
        using Inr mk \<open>r1 = None\<close> cr None2 io k3 k4
        by (simp add: Copy_def split: option.splits)
    qed
  qed
qed

subsection \<open>One entry in the merge engine\<close>

lemma processEntry_found:
  "index w (csum fent) = Some v \<Longrightarrow>
     processEntry move fent flt w =
       (if get_fails flt then (LookupError, say (MsgLookupFailed (srcPath fent) ErrDB) w)
        else (Duplicate, w))"
  by (simp add: processEntry_def db_Get_def)

lemma processEntry_lookup_fails:
  "get_fails flt \<Longrightarrow>
     processEntry move fent flt w = (LookupError, say (MsgLookupFailed (srcPath fent) ErrDB) w)"
  by (simp add: processEntry_def db_Get_def)

lemma processEntry_Transferred_index:
  "processEntry move fent flt w = (Transferred, w') \<Longrightarrow>
     index w (csum fent) = None \<and> index w' = (index w)(csum fent \<mapsto> srcPath fent)"
  by (auto simp: processEntry_def db_Get_def db_Set_def say_def Let_def
      split: if_splits option.splits prod.splits)

lemma processEntry_other_index:
  "processEntry move fent flt w = (r, w') \<Longrightarrow> r \<noteq> Transferred \<Longrightarrow> index w' = index w"
  by (auto simp: processEntry_def db_Get_def db_Set_def say_def Let_def
      split: if_splits option.splits prod.splits)

lemma processEntry_index_cases:
  "index (snd (processEntry move fent flt w)) =
     (if fst (processEntry move fent flt w) = Transferred
      then (index w)(csum fent \<mapsto> srcPath fent) else index w)"
  using processEntry_Transferred_index [of move fent flt w]
    processEntry_other_index [of move fent flt w]
  by (cases "processEntry move fent flt w") auto

subsection \<open>A run of processFile, point by point\<close>

lemma processFile_Cons:
  "processFile ((fent, flt) # rest) move w =
     (fst (processEntry move fent flt w)
        # fst (processFile rest move (snd (processEntry move fent flt w))),
      snd (processFile rest move (snd (processEntry move fent flt w))))"
  by (simp split: prod.splits)

declare processFile.simps(2) [simp del]

lemma processFile_length: "length (fst (processFile items move w)) = length items"
  by (induction items arbitrary: w) (auto simp: processFile_Cons)

lemma processFile_append:
  "processFile (xs @ ys) move w =
     (fst (processFile xs move w) @ fst (processFile ys move (snd (processFile xs move w))),
      snd (processFile ys move (snd (processFile xs move w))))"
  by (induction xs arbitrary: w) (auto simp: processFile_Cons)

lemma processFile_snoc:
  "processFile (xs @ [(fent, flt)]) move w =
     (fst (processFile xs move w) @ [fst (processEntry move fent flt (snd (processFile xs move w)))],
      snd (processEntry move fent flt (snd (processFile xs move w))))"
  by (simp add: processFile_append processFile_Cons)

lemma processFile_take_fst:
  "fst (processFile (take n items) move w) = take n (fst (processFile items move w))"
proof -
  have "processFile items move w = processFile (take n items @ drop n items) move w" by simp
  also have "fst \<dots> = fst (processFile (take n items) move w)
      @ fst (processFile (drop n items) move (snd (processFile (take n items) move w)))"
    by (simp only: processFile_append fst_conv)
  finally have "take n (fst (processFile items move w)) =
      take n (fst (processFile (take n items) move w)
      @ fst (processFile (drop n items) move (snd (processFile (take n items) move w))))"
    by simp
  also have "\<dots> = fst (processFile (take n items) move w)"
    by (cases "n \<le> length items") (simp_all add: processFile_length)
  finally show ?thesis by simp
qed

lemma processFile_step:
  assumes "n < length items"
  shows "processFile (take (Suc n) items) move w =
     (fst (processFile (take n items) move w)
        @ [fst (processEntry move (fst (items ! n)) (snd (items ! n))
                  (snd (processFile (take n items) move w)))],
      snd (processEntry move (fst (items ! n)) (snd (items ! n))
             (snd (processFile (take n items) move w))))"
proof -
  have "take (Suc n) items = take n items @ [(fst (items ! n), snd (items ! n))]"
    using assms by (simp add: take_Suc_conv_app_nth)
  then show ?thesis by (simp only: processFile_snoc)
qed

lemma processFile_nth:
  assumes "n < length items"
  shows "fst (processFile items move w) ! n =
     fst (processEntry move (fst (items ! n)) (snd (items ! n))
            (snd (processFile (take n items) move w)))"
proof -
  have "fst (processFile items move w) ! n = take (Suc n) (fst (processFile items move w)) ! n"
    by simp
  also have "\<dots> = fst (processFile (take (Suc n) items) move w) ! n"
    by (simp only: processFile_take_fst)
  also have "\<dots> = fst (processEntry move (fst (items ! n)) (snd (items ! n))
            (snd (processFile (take n items) move w)))"
    using assms by (simp add: processFile_step processFile_length nth_append)
  finally show ?thesis .
qed

lemma index_step:
  assumes "n < length items"
  shows "index (snd (processFile (take (Suc n) items) move w)) =
     (if fst (processFile items move w) ! n = Transferred
      then (index (snd (processFile (take n items) move w)))
             (csum (fst (items ! n)) \<mapsto> srcPath (fst (items ! n)))
      else index (snd (processFile (take n items) move w)))"
  using assms by (simp add: processFile_step processFile_nth processEntry_index_cases)

lemma index_step_fresh:
  assumes "n < length items" and "fst (processFile items move w) ! n = Transferred"
  shows "index (snd (processFile (take n items) move w)) (csum (fst (items ! n))) = None"
proof -
  let ?w = "snd (processFile (take n items) move w)"
  obtain w' where "processEntry move (fst (items ! n)) (snd (items ! n)) ?w = (Transferred, w')"
    using assms processFile_nth [OF assms(1), of move w]
    by (cases "processEntry move (fst (items ! n)) (snd (items ! n)) ?w") auto
  then show ?thesis using processEntry_Transferred_index by blast
qed

lemma processEntry_index_mono: "index w \<subseteq>\<^sub>m index (snd (processEntry move fent flt w))"
proof (cases "processEntry move fent flt w")
  case (Pair r w')
  show ?thesis
  proof (cases "r = Transferred")
    case True
    with Pair have "index w (csum fent) = None" "index w' = (index w)(csum fent \<mapsto> srcPath fent)"
      using processEntry_Transferred_index by blast+
    then show ?thesis using Pair by (auto simp: map_le_def)
  next
    case False
    with Pair have "index w' = index w" using processEntry_other_index by blast
    then show ?thesis using Pair by simp
  qed
qed

lemma processFile_index_mono: "index w \<subseteq>\<^sub>m index (snd (processFile items move w))"
proof (induction items arbitrary: w)
  case Nil
  then show ?case by simp
next
  case (Cons a items)
  obtain fent flt where a: "a = (fent, flt)" by (cases a)
  have "index w \<subseteq>\<^sub>m index (snd (processEntry move fent flt w))"
    by (rule processEntry_index_mono)
  also have "\<dots> \<subseteq>\<^sub>m index (snd (processFile items move (snd (processEntry move fent flt w))))"
    by (rule Cons.IH)
  finally (map_le_trans) show ?case using a by (simp add: processFile_Cons)
qed

lemma processFile_index_prefix:
  "index (snd (processFile (take n items) move w)) \<subseteq>\<^sub>m index (snd (processFile items move w))"
proof -
  have "processFile items move w = processFile (take n items @ drop n items) move w" by simp
  then have "snd (processFile items move w) =
      snd (processFile (drop n items) move (snd (processFile (take n items) move w)))"
    by (simp only: processFile_append snd_conv)
  then show ?thesis by (simp add: processFile_index_mono)
qed

lemma processFile_dom:
  "dom (index (snd (processFile items move w))) =
     dom (index w) \<union> csum ` set (transferred items (fst (processFile items move w)))"
proof (induction items arbitrary: w)
  case Nil
  then show ?case by simp
next
  case (Cons a items)
  obtain fent flt where a: "a = (fent, flt)" by (cases a)
  obtain r w' where pe: "processEntry move fent flt w = (r, w')"
    by (cases "processEntry move fent flt w")
  obtain rs w'' where pf: "processFile items move w' = (rs, w'')"
    by (cases "processFile items move w'")
  have ih: "dom (index w'') = dom (index w') \<union> csum ` set (transferred items rs)"
    using Cons.IH [of w'] pf by simp
  have d: "dom (index w') = (if r = Transferred then insert (csum fent) (dom (index w)) else dom (index w))"
    using processEntry_index_cases [of move fent flt w] pe by auto
  show ?case using a pe pf ih d by (auto simp: processFile_Cons)
qed

subsection \<open>The run on the two roots\<close>

lemma run_copy_outcomes:
  "fst (processFile three_items False fresh) = [Transferred, TransferFailed, Transferred]"
  by code_simp



lemma run_copy_stdout:
  "stdout (snd (processFile three_items False fresh)) = [MsgCopyFailed ''B/same.txt'' ''D/same.txt'' EEXIST]"
  by code_simp

lemma run_copy_index:
  "index (snd (processFile three_items False fresh)) ''digest-bar'' = Some ''B/z.txt''"
  by code_simp

subsection \<open>Duplicates\<close>






subsection \<open>Copy, collisions and the fallback of move mode\<close>

lemma mkdir_chain_File:
  "map_of (snd (mkdir_chain ps fs)) p = Some (File c) \<Longrightarrow> map_of fs p = Some (File c)"
proof (induction ps arbitrary: fs)
  case Nil
  then show ?case by simp
next
  case (Cons q ps)
  show ?case
  proof (cases "map_of fs q")
    case None
    with Cons.prems have "map_of (snd (mkdir_chain ps (AList.update q Dir fs))) p = Some (File c)"
      by simp
    then have "map_of (AList.update q Dir fs) p = Some (File c)" by (rule Cons.IH)
    then show ?thesis by (simp add: update_conv' split: if_splits)
  next
    case (Some m)
    then show ?thesis using Cons by (cases m) simp_all
  qed
qed

lemma os_MkdirAll_File:
  "map_of (snd (os_MkdirAll flt d fs)) p = Some (File c) \<Longrightarrow> map_of fs p = Some (File c)"
  by (auto simp: os_MkdirAll_def split: option.splits if_splits dest: mkdir_chain_File)

lemma os_Rename_Some:
  "os_Rename flt src dst fs = (Some e, fs') \<Longrightarrow> fs' = fs"
  by (auto simp: os_Rename_def split: option.splits if_splits node.splits)

lemma io_Copy_None:
  "io_Copy flt dst srcFd fs = (None, fs') \<Longrightarrow>
     \<exists>c. srcFd = File c \<and> fs' = AList.update dst (File c) fs"
  by (auto simp: io_Copy_def split: node.splits option.splits)

lemma io_Copy_Some:
  "io_Copy flt dst srcFd fs = (Some e, fs') \<Longrightarrow>
     fs' = fs \<or> (\<exists>c. fs' = AList.update dst (File c) fs)"
  by (auto simp: io_Copy_def split: node.splits option.splits)

lemma Copy_exists_fails:
  assumes "map_of fs dst = Some n"
  shows "fst (Copy flt src dst fs) \<noteq> None"
proof (cases "os_Open (open_err flt) src fs")
  case (Inl e)
  then show ?thesis by (simp add: Copy_def)
next
  case (Inr srcFd)
  obtain r1 fs1 where mk: "os_MkdirAll (mkdirall_err flt) (filepath_Dir dst) fs = (r1, fs1)"
    by (cases "os_MkdirAll (mkdirall_err flt) (filepath_Dir dst) fs")
  have k1: "map_of fs1 dst = Some n"
    using os_MkdirAll_keeps [OF assms, of "mkdirall_err flt" "filepath_Dir dst"] mk by simp
  show ?thesis
  proof (cases r1)
    case (Some e)
    then show ?thesis using Inr mk by (simp add: Copy_def)
  next
    case None
    obtain e where "os_OpenFile_excl (create_err flt) dst fs1 = (Some e, fs1)"
      using os_OpenFile_excl_exists [OF k1] by blast
    then show ?thesis using Inr mk None by (simp add: Copy_def)
  qed
qed

lemma Copy_None:
  assumes "Copy flt src dst fs = (None, fs')"
  shows "\<exists>c. map_of fs src = Some (File c) \<and> map_of fs' src = Some (File c)
           \<and> map_of fs' dst = Some (File c) \<and> map_of fs dst = None"
proof -
  obtain srcFd where op: "os_Open (open_err flt) src fs = Inr srcFd"
    using assms by (cases "os_Open (open_err flt) src fs") (simp_all add: Copy_def)
  obtain fs1 where mk: "os_MkdirAll (mkdirall_err flt) (filepath_Dir dst) fs = (None, fs1)"
    using assms op
    by (cases "os_MkdirAll (mkdirall_err flt) (filepath_Dir dst) fs")
      (auto simp: Copy_def split: option.splits)
  obtain fs2 where cr: "os_OpenFile_excl (create_err flt) dst fs1 = (None, fs2)"
    using assms op mk
    by (cases "os_OpenFile_excl (create_err flt) dst fs1")
      (auto simp: Copy_def split: option.splits)
  have io: "io_Copy (copy_err flt) dst srcFd fs2 = (None, fs')"
    using assms op mk cr
    by (cases "io_Copy (copy_err flt) dst srcFd fs2")
      (auto simp: Copy_def split: option.splits if_splits)
  from io obtain c where c: "srcFd = File c" "fs' = AList.update dst (File c) fs2"
    using io_Copy_None by blast
  from cr have fresh1: "map_of fs1 dst = None" and fs2: "fs2 = AList.update dst (File []) fs1"
    using os_OpenFile_excl_None by blast+
  have src: "map_of fs src = Some (File c)" using op c os_Open_Inr by blast
  have src1: "map_of fs1 src = Some (File c)"
    using os_MkdirAll_keeps [OF src, of "mkdirall_err flt" "filepath_Dir dst"] mk by simp
  have ne: "src \<noteq> dst" using src1 fresh1 by auto
  have fresh: "map_of fs dst = None"
  proof (cases "map_of fs dst")
    case None
    then show ?thesis .
  next
    case (Some n)
    then have "map_of fs1 dst = Some n"
      using os_MkdirAll_keeps [of fs dst n "mkdirall_err flt" "filepath_Dir dst"] mk by simp
    with fresh1 show ?thesis by simp
  qed
  show ?thesis using src src1 ne fresh c fs2 by (simp add: update_conv')
qed

lemma processEntry_copy_keeps:
  assumes "map_of (files w) p = Some n"
  shows "map_of (files (snd (processEntry False fent flt w))) p = Some n"
  using assms Copy_keeps [OF assms, of "copy_faults flt" "srcPath fent" "dstPath fent"]
  by (auto simp: processEntry_def say_def Let_def split: prod.splits option.splits)

lemma processFile_copy_keeps:
  "map_of (files w) p = Some n \<Longrightarrow> map_of (files (snd (processFile items False w))) p = Some n"
proof (induction items arbitrary: w)
  case Nil
  then show ?case by simp
next
  case (Cons a items)
  obtain fent flt where a: "a = (fent, flt)" by (cases a)
  have "map_of (files (snd (processEntry False fent flt w))) p = Some n"
    using Cons.prems by (rule processEntry_copy_keeps)
  then show ?case using a Cons.IH by (simp add: processFile_Cons)
qed

lemma processEntry_copy_collision:
  assumes "map_of (files w) (dstPath fent) = Some n"
    and "index w (csum fent) = None" and "\<not> get_fails flt"
  shows "\<exists>e. fst (processEntry False fent flt w) = TransferFailed
           \<and> stdout (snd (processEntry False fent flt w)) =
               stdout w @ [MsgCopyFailed (srcPath fent) (dstPath fent) e]
           \<and> fst (Copy (copy_faults flt) (srcPath fent) (dstPath fent) (files w)) = Some e"
proof -
  obtain r fs1 where c: "Copy (copy_faults flt) (srcPath fent) (dstPath fent) (files w) = (r, fs1)"
    by (cases "Copy (copy_faults flt) (srcPath fent) (dstPath fent) (files w)")
  with Copy_exists_fails [OF assms(1), of "copy_faults flt" "srcPath fent"]
  obtain e where "r = Some e" by auto
  then show ?thesis
    using c assms(2,3) by (simp add: processEntry_def db_Get_def say_def)
qed

text \<open>
  C5. When anything is present at the destination path, \<open>Copy\<close> returns an error and
  what is at the path stays. In copy mode the merge engine therefore never reports such
  an entry as transferred and never records its digest; when the digest is new and the
  lookup works, the entry fails with the error of \<open>Copy\<close>, which is printed. Whatever
  entries follow in a run in copy mode, the file at the path is still the same.
\<close>

theorem copy_never_replaces_an_existing_file:
  assumes "map_of (files w) (dstPath fent) = Some n"
  shows "fst (Copy io (srcPath fent) (dstPath fent) (files w)) \<noteq> None
       \<and> map_of (snd (Copy io (srcPath fent) (dstPath fent) (files w))) (dstPath fent) = Some n
       \<and> fst (processEntry False fent flt w) \<noteq> Transferred
       \<and> index (snd (processEntry False fent flt w)) = index w
       \<and> map_of (files (snd (processEntry False fent flt w))) (dstPath fent) = Some n
       \<and> (index w (csum fent) = None \<and> \<not> get_fails flt \<longrightarrow>
            (\<exists>e. fst (processEntry False fent flt w) = TransferFailed
               \<and> stdout (snd (processEntry False fent flt w)) =
                   stdout w @ [MsgCopyFailed (srcPath fent) (dstPath fent) e]))
       \<and> map_of (files (snd (processFile items False w))) (dstPath fent) = Some n"
proof -
  have a: "fst (Copy io (srcPath fent) (dstPath fent) (files w)) \<noteq> None"
    using assms by (rule Copy_exists_fails)
  have b: "map_of (snd (Copy io (srcPath fent) (dstPath fent) (files w))) (dstPath fent) = Some n"
    using assms by (rule Copy_keeps)
  have c: "fst (processEntry False fent flt w) \<noteq> Transferred"
  proof
    assume "fst (processEntry False fent flt w) = Transferred"
    then have "fst (Copy (copy_faults flt) (srcPath fent) (dstPath fent) (files w)) = None"
      by (auto simp: processEntry_def say_def Let_def split: prod.splits option.splits if_splits)
    with Copy_exists_fails [OF assms] show False by blast
  qed
  have d: "index (snd (processEntry False fent flt w)) = index w"
    using c processEntry_other_index [of False fent flt w]
    by (cases "processEntry False fent flt w") auto
  have e: "map_of (files (snd (processEntry False fent flt w))) (dstPath fent) = Some n"
    using assms by (rule processEntry_copy_keeps)
  have f: "index w (csum fent) = None \<and> \<not> get_fails flt \<longrightarrow>
      (\<exists>e. fst (processEntry False fent flt w) = TransferFailed
         \<and> stdout (snd (processEntry False fent flt w)) =
             stdout w @ [MsgCopyFailed (srcPath fent) (dstPath fent) e])"
    using processEntry_copy_collision [OF assms, of flt] by blast
  have g: "map_of (files (snd (processFile items False w))) (dstPath fent) = Some n"
    using assms by (rule processFile_copy_keeps)
  from a b c d e f g show ?thesis by blast
qed

lemma after_A_files:
  "files after_A = two_roots @ [(''D'', Dir), (''D/same.txt'', File ''foo'')]"
  unfolding after_A_def by code_simp

lemma after_A_index: "index after_A ''digest-bar'' = None"
  unfolding after_A_def by code_simp

lemma after_A_stdout: "stdout after_A = []"
  unfolding after_A_def by code_simp

theorem copy_never_replaces_an_existing_file_witness:
  "map_of (files after_A) (dstPath entry_B_same) = Some (File ''foo'')
   \<and> fst (Copy no_io_faults (srcPath entry_B_same) (dstPath entry_B_same) (files after_A)) \<noteq> None
   \<and> fst (processEntry False entry_B_same no_faults after_A) = TransferFailed
   \<and> (\<exists>e. stdout (snd (processEntry False entry_B_same no_faults after_A)) =
          [MsgCopyFailed ''B/same.txt'' ''D/same.txt'' e])
   \<and> map_of (files (snd (processEntry False entry_B_same no_faults after_A))) ''D/same.txt''
       = Some (File ''foo'')
   \<and> map_of (files (snd (processFile [(entry_B_same, no_faults), (entry_B_z, no_faults)] False after_A)))
       ''D/same.txt'' = Some (File ''foo'')"
proof -
  have h: "map_of (files after_A) (dstPath entry_B_same) = Some (File ''foo'')"
    by (simp add: after_A_files entry_B_same_def two_roots_def)
  have i: "index after_A (csum entry_B_same) = None" "\<not> get_fails no_faults"
    by (simp_all add: after_A_index entry_B_same_def no_faults_def)
  have p: "srcPath entry_B_same = ''B/same.txt''" "dstPath entry_B_same = ''D/same.txt''"
    by (simp_all add: entry_B_same_def)
  show ?thesis
    using copy_never_replaces_an_existing_file [OF h, of no_io_faults no_faults
        "[(entry_B_same, no_faults), (entry_B_z, no_faults)]"] h i
    by (auto simp: p after_A_stdout)
qed

text \<open>
  C4. In move mode, for an entry whose digest is new, when the directories of the
  destination exist and the rename fails for whatever reason, the merge engine does what
  \<open>Copy\<close> does: the file system it leaves is the one \<open>Copy\<close> leaves, and the entry
  is transferred exactly when \<open>Copy\<close> returns nil. After such a copy the source file is
  still there with its bytes, the destination holds the same bytes, and the digest is
  recorded. Whether or not the copy succeeds, what was at the source path is still
  there.
\<close>

theorem move_falls_back_to_copy_and_keeps_the_source:
  assumes "index w (csum fent) = None" and "\<not> get_fails flt"
    and "os_MkdirAll (mkdir_err flt) (filepath_Dir (dstPath fent)) (files w) = (None, fs1)"
    and "fst (os_Rename (rename_err flt) (srcPath fent) (dstPath fent) fs1) = Some e"
  shows "files (snd (processEntry True fent flt w)) =
           snd (Copy (copy_faults flt) (srcPath fent) (dstPath fent) fs1)
       \<and> fst (processEntry True fent flt w) =
           (if fst (Copy (copy_faults flt) (srcPath fent) (dstPath fent) fs1) = None
            then Transferred else TransferFailed)
       \<and> (fst (Copy (copy_faults flt) (srcPath fent) (dstPath fent) fs1) = None \<longrightarrow>
            (\<exists>c. map_of (files w) (srcPath fent) = Some (File c)
               \<and> map_of (files (snd (processEntry True fent flt w))) (srcPath fent) = Some (File c)
               \<and> map_of (files (snd (processEntry True fent flt w))) (dstPath fent) = Some (File c)
               \<and> index (snd (processEntry True fent flt w)) (csum fent) = Some (srcPath fent)))
       \<and> (\<forall>n. map_of (files w) (srcPath fent) = Some n \<longrightarrow>
            map_of (files (snd (processEntry True fent flt w))) (srcPath fent) = Some n)"
proof -
  let ?src = "srcPath fent" and ?dst = "dstPath fent"
  obtain fs2 where rn: "os_Rename (rename_err flt) ?src ?dst fs1 = (Some e, fs2)"
    using assms(4) by (cases "os_Rename (rename_err flt) ?src ?dst fs1") auto
  then have fs2: "fs2 = fs1" by (rule os_Rename_Some)
  obtain r fs3 where cp: "Copy (copy_faults flt) ?src ?dst fs1 = (r, fs3)"
    by (cases "Copy (copy_faults flt) ?src ?dst fs1")
  have pe: "processEntry True fent flt w =
      (case r of
         Some err \<Rightarrow> (TransferFailed,
            say (MsgCopyFailed ?src ?dst err)
              ((say (MsgRenameFailed ?src ?dst) (w\<lparr>files := fs1\<rparr>))\<lparr>files := fs3\<rparr>))
       | None \<Rightarrow> (Transferred,
            (say (MsgRenameFailed ?src ?dst) (w\<lparr>files := fs1\<rparr>))
              \<lparr>files := fs3, index := db_Set (index w) (csum fent) ?src\<rparr>))"
    using assms(1,2,3) rn fs2 cp
    by (simp add: processEntry_def db_Get_def say_def Let_def split: option.splits)
  have files: "files (snd (processEntry True fent flt w)) = fs3"
    by (simp add: pe say_def split: option.splits)
  have out: "fst (processEntry True fent flt w) = (if r = None then Transferred else TransferFailed)"
    by (simp add: pe split: option.splits)
  have src: "\<exists>c. map_of (files w) ?src = Some (File c) \<and> map_of fs3 ?src = Some (File c)
      \<and> map_of fs3 ?dst = Some (File c)" if "r = None"
  proof -
    from cp that obtain c where c: "map_of fs1 ?src = Some (File c)"
        "map_of fs3 ?src = Some (File c)" "map_of fs3 ?dst = Some (File c)"
      using Copy_None by blast
    have "map_of (files w) ?src = Some (File c)"
      using os_MkdirAll_File [of "mkdir_err flt" "filepath_Dir ?dst" "files w" ?src c]
        assms(3) c(1) by simp
    with c show ?thesis by blast
  qed
  have idx: "index (snd (processEntry True fent flt w)) (csum fent) = Some ?src" if "r = None"
    using that by (simp add: pe db_Set_def)
  have kept: "map_of fs3 ?src = Some n" if "map_of (files w) ?src = Some n" for n
  proof -
    have "map_of fs1 ?src = Some n"
      using os_MkdirAll_keeps [OF that, of "mkdir_err flt" "filepath_Dir ?dst"] assms(3) by simp
    then show ?thesis
      using Copy_keeps [of fs1 ?src n "copy_faults flt" ?src ?dst] cp by simp
  qed
  show ?thesis using files out src idx kept cp by auto
qed

lemma cross_device_run:
  "processEntry True entry_A_same cross_device fresh =
     (Transferred,
      \<lparr>index = Map.empty(''digest-foo'' \<mapsto> ''A/same.txt''),
       files = two_roots @ [(''D'', Dir), (''D/same.txt'', File ''foo'')],
       stdout = [MsgRenameFailed ''A/same.txt'' ''D/same.txt'']\<rparr>)"
  by (simp add: processEntry_def db_Get_def db_Set_def say_def Let_def fresh_def entry_A_same_def
      cross_device_def no_faults_def no_io_faults_def two_roots_def
      os_MkdirAll_def ancestors_def os_Rename_def Copy_def os_Open_def os_OpenFile_excl_def
      io_Copy_def filepath_Dir_def filepath_Clean_def clean_elem_def)

theorem move_falls_back_to_copy_and_keeps_the_source_witness:
  "index fresh (csum entry_A_same) = None \<and> \<not> get_fails cross_device
   \<and> os_MkdirAll (mkdir_err cross_device) (filepath_Dir (dstPath entry_A_same)) (files fresh)
       = (None, two_roots @ [(''D'', Dir)])
   \<and> fst (os_Rename (rename_err cross_device) (srcPath entry_A_same) (dstPath entry_A_same)
            (two_roots @ [(''D'', Dir)])) = Some EXDEV
   \<and> files (snd (processEntry True entry_A_same cross_device fresh)) =
       snd (Copy (copy_faults cross_device) (srcPath entry_A_same) (dstPath entry_A_same)
              (two_roots @ [(''D'', Dir)]))
   \<and> fst (processEntry True entry_A_same cross_device fresh) = Transferred
   \<and> map_of (files (snd (processEntry True entry_A_same cross_device fresh))) ''A/same.txt''
       = Some (File ''foo'')
   \<and> map_of (files (snd (processEntry True entry_A_same cross_device fresh))) ''D/same.txt''
       = Some (File ''foo'')"
proof -
  have h1: "index fresh (csum entry_A_same) = None" by (simp add: fresh_def)
  have h2: "\<not> get_fails cross_device" by (simp add: cross_device_def no_faults_def)
  have h3: "os_MkdirAll (mkdir_err cross_device) (filepath_Dir (dstPath entry_A_same)) (files fresh)
      = (None, two_roots @ [(''D'', Dir)])"
    by (simp add: cross_device_def no_faults_def entry_A_same_def fresh_def two_roots_def
        os_MkdirAll_def ancestors_def filepath_Dir_def filepath_Clean_def clean_elem_def)
  have h4: "fst (os_Rename (rename_err cross_device) (srcPath entry_A_same) (dstPath entry_A_same)
      (two_roots @ [(''D'', Dir)])) = Some EXDEV"
    by (simp add: cross_device_def no_faults_def os_Rename_def)
  have t: "files (snd (processEntry True entry_A_same cross_device fresh)) =
      snd (Copy (copy_faults cross_device) (srcPath entry_A_same) (dstPath entry_A_same)
             (two_roots @ [(''D'', Dir)]))"
    using move_falls_back_to_copy_and_keeps_the_source [OF h1 h2 h3 h4] by blast
  have run: "fst (processEntry True entry_A_same cross_device fresh) = Transferred"
    "map_of (files (snd (processEntry True entry_A_same cross_device fresh))) ''A/same.txt''
       = Some (File ''foo'')"
    "map_of (files (snd (processEntry True entry_A_same cross_device fresh))) ''D/same.txt''
       = Some (File ''foo'')"
    by (simp_all add: cross_device_run two_roots_def)
  show ?thesis using t h1 h2 h3 h4 run by blast
qed

text \<open>
  When the stream fails and closing the destination fails as well, \<open>Copy\<close> returns
  before it reaches \<open>os.Remove\<close>: the partial file stays.
\<close>

lemma close_failure_skips_the_removal:
  assumes "os_Open (open_err io) src fs = Inr srcFd"
    and "os_MkdirAll (mkdirall_err io) (filepath_Dir dst) fs = (None, fs1)"
    and "os_OpenFile_excl (create_err io) dst fs1 = (None, fs2)"
    and "io_Copy (copy_err io) dst srcFd fs2 = (Some e, fs3)"
    and "close_err io = Some errClose"
  shows "Copy io src dst fs = (Some e, fs3)"
  using assms by (simp add: Copy_def)

text \<open>
  C6, as amended. When the byte stream of \<open>Copy\<close> fails, \<open>Copy\<close> returns the error of
  the stream. When closing the destination succeeded, \<open>Copy\<close> has called \<open>os.Remove\<close>
  on the destination: after a removal that succeeded nothing is left at the path; after
  one that failed the partial file stays and nothing else is done.
\<close>

theorem failed_stream_attempts_removal_and_returns_its_error:
  assumes "os_Open (open_err io) src fs = Inr srcFd"
    and "os_MkdirAll (mkdirall_err io) (filepath_Dir dst) fs = (None, fs1)"
    and "os_OpenFile_excl (create_err io) dst fs1 = (None, fs2)"
    and "io_Copy (copy_err io) dst srcFd fs2 = (Some e, fs3)"
  shows "fst (Copy io src dst fs) = Some e
       \<and> (close_err io = None \<longrightarrow>
            Copy io src dst fs = (Some e, snd (os_Remove (remove_err io) dst fs3))
          \<and> (fst (os_Remove (remove_err io) dst fs3) = None \<longrightarrow>
               map_of (snd (Copy io src dst fs)) dst = None)
          \<and> (fst (os_Remove (remove_err io) dst fs3) \<noteq> None \<longrightarrow>
               snd (Copy io src dst fs) = fs3))"
proof -
  have r: "fst (Copy io src dst fs) = Some e"
    using assms by (simp add: Copy_def split: option.splits)
  have c: "Copy io src dst fs = (Some e, snd (os_Remove (remove_err io) dst fs3))"
    if "close_err io = None"
    using assms that by (simp add: Copy_def)
  have gone: "map_of (snd (os_Remove (remove_err io) dst fs3)) dst = None"
    if "fst (os_Remove (remove_err io) dst fs3) = None"
    using that
    by (auto simp: os_Remove_def delete_conv' split: option.splits node.splits if_splits)
  have kept: "snd (os_Remove (remove_err io) dst fs3) = fs3"
    if "fst (os_Remove (remove_err io) dst fs3) \<noteq> None"
    using that
    by (auto simp: os_Remove_def split: option.splits node.splits if_splits)
  show ?thesis using r c gone kept by auto
qed

lemma broken_stream_Copy:
  "Copy broken_stream ''A/same.txt'' ''D/same.txt'' two_roots = (Some EIO, two_roots @ [(''D'', Dir)])"
  by (simp add: broken_stream_def no_io_faults_def two_roots_def
      os_MkdirAll_def ancestors_def Copy_def os_Open_def os_OpenFile_excl_def os_Remove_def
      io_Copy_def filepath_Dir_def filepath_Clean_def clean_elem_def)

theorem failed_stream_attempts_removal_and_returns_its_error_witness:
  "os_Open (open_err broken_stream) ''A/same.txt'' two_roots = Inr (File ''foo'')
   \<and> os_MkdirAll (mkdirall_err broken_stream) (filepath_Dir ''D/same.txt'') two_roots
       = (None, two_roots @ [(''D'', Dir)])
   \<and> os_OpenFile_excl (create_err broken_stream) ''D/same.txt'' (two_roots @ [(''D'', Dir)])
       = (None, two_roots @ [(''D'', Dir), (''D/same.txt'', File [])])
   \<and> io_Copy (copy_err broken_stream) ''D/same.txt'' (File ''foo'')
         (two_roots @ [(''D'', Dir), (''D/same.txt'', File [])])
       = (Some EIO, two_roots @ [(''D'', Dir), (''D/same.txt'', File ''fo'')])
   \<and> close_err broken_stream = None
   \<and> fst (Copy broken_stream ''A/same.txt'' ''D/same.txt'' two_roots) = Some EIO
   \<and> map_of (snd (Copy broken_stream ''A/same.txt'' ''D/same.txt'' two_roots)) ''D/same.txt'' = None"
proof -
  have h1: "os_Open (open_err broken_stream) ''A/same.txt'' two_roots = Inr (File ''foo'')"
    by (simp add: broken_stream_def no_io_faults_def two_roots_def os_Open_def)
  have h2: "os_MkdirAll (mkdirall_err broken_stream) (filepath_Dir ''D/same.txt'') two_roots
      = (None, two_roots @ [(''D'', Dir)])"
    by (simp add: broken_stream_def no_io_faults_def two_roots_def
        os_MkdirAll_def ancestors_def filepath_Dir_def filepath_Clean_def clean_elem_def)
  have h3: "os_OpenFile_excl (create_err broken_stream) ''D/same.txt'' (two_roots @ [(''D'', Dir)])
      = (None, two_roots @ [(''D'', Dir), (''D/same.txt'', File [])])"
    by (simp add: broken_stream_def no_io_faults_def two_roots_def
        os_OpenFile_excl_def filepath_Dir_def filepath_Clean_def clean_elem_def)
  have h4: "io_Copy (copy_err broken_stream) ''D/same.txt'' (File ''foo'')
        (two_roots @ [(''D'', Dir), (''D/same.txt'', File [])])
      = (Some EIO, two_roots @ [(''D'', Dir), (''D/same.txt'', File ''fo'')])"
    by (simp add: broken_stream_def no_io_faults_def two_roots_def io_Copy_def)
  have h5: "close_err broken_stream = None"
    by (simp add: broken_stream_def no_io_faults_def)
  have t: "fst (Copy broken_stream ''A/same.txt'' ''D/same.txt'' two_roots) = Some EIO"
    using failed_stream_attempts_removal_and_returns_its_error [OF h1 h2 h3 h4] by blast
  have run: "map_of (snd (Copy broken_stream ''A/same.txt'' ''D/same.txt'' two_roots)) ''D/same.txt'' = None"
    by (simp only: broken_stream_Copy snd_conv) (simp add: two_roots_def)
  show ?thesis using t h1 h2 h3 h4 h5 run by blast
qed

lemma broken_stream_and_removal_Copy:
  "Copy broken_stream_and_removal ''A/same.txt'' ''D/same.txt'' two_roots
     = (Some EIO, two_roots @ [(''D'', Dir), (''D/same.txt'', File ''fo'')])"
  by (simp add: broken_stream_and_removal_def no_io_faults_def two_roots_def
      os_MkdirAll_def ancestors_def Copy_def os_Open_def os_OpenFile_excl_def os_Remove_def
      io_Copy_def filepath_Dir_def filepath_Clean_def clean_elem_def)

lemma broken_stream_and_removal_stdout:
  "stdout (snd (processEntry False entry_A_same
                    (no_faults\<lparr>copy_faults := broken_stream_and_removal\<rparr>) fresh))
       = [MsgCopyFailed ''A/same.txt'' ''D/same.txt'' EIO]"
  using broken_stream_and_removal_Copy
  by (simp add: no_faults_def fresh_def entry_A_same_def processEntry_def db_Get_def say_def)

text \<open>
  A removal that fails is not reported: with the stream failing after two bytes and the
  removal failing with \<open>EACCES\<close>, \<open>Copy\<close> returns the stream's \<open>EIO\<close>, as it does when
  the removal succeeds, the two bytes stay at the destination, and the only line printed
  is the one for \<open>EIO\<close>.
\<close>

theorem failed_removal_is_not_reported:
  "Copy broken_stream_and_removal ''A/same.txt'' ''D/same.txt'' two_roots
     = (Some EIO, two_roots @ [(''D'', Dir), (''D/same.txt'', File ''fo'')])
   \<and> fst (Copy broken_stream ''A/same.txt'' ''D/same.txt'' two_roots) = Some EIO
   \<and> remove_err broken_stream_and_removal = Some EACCES
   \<and> stdout (snd (processEntry False entry_A_same
                    (no_faults\<lparr>copy_faults := broken_stream_and_removal\<rparr>) fresh))
       = [MsgCopyFailed ''A/same.txt'' ''D/same.txt'' EIO]"
  using broken_stream_and_removal_Copy broken_stream_and_removal_stdout
  by (simp add: broken_stream_Copy broken_stream_and_removal_def)

subsection \<open>Paths below a root\<close>

lemma split_sep_nonempty: "split_sep s \<noteq> []"
  by (induction s) (auto split: list.splits)

lemma split_sep_no_sep: "CHR ''/'' \<notin> set s \<Longrightarrow> split_sep s = [s]"
  by (induction s) auto

lemma split_sep_append: "split_sep (a @ CHR ''/'' # b) = split_sep a @ split_sep b"
proof (induction a)
  case Nil
  then show ?case by simp
next
  case (Cons c a)
  obtain e es where "split_sep a = e # es"
    using split_sep_nonempty [of a] by (cases "split_sep a") auto
  then show ?case using Cons by simp
qed

lemma join_sep_snoc: "join_sep (out @ [e]) = (if out = [] then e else join_sep out @ ''/'' @ e)"
  by (induction out rule: join_sep.induct) auto

lemma clean_elem_valid: "valid_name e \<Longrightarrow> clean_elem rooted out e = out @ [e]"
  by (auto simp: clean_elem_def valid_name_def)

lemma Clean_root_child:
  assumes "valid_name name"
  shows "filepath_Clean (''/'' @ ''/'' @ name) = ''/'' @ name"
    and "filepath_Clean (''/'' @ name) = ''/'' @ name"
proof -
  have s: "split_sep name = [name]"
    using assms by (simp add: split_sep_no_sep valid_name_def)
  show "filepath_Clean (''/'' @ ''/'' @ name) = ''/'' @ name"
    using assms by (simp add: filepath_Clean_def s clean_elem_def valid_name_def)
  show "filepath_Clean (''/'' @ name) = ''/'' @ name"
    using assms by (simp add: filepath_Clean_def s clean_elem_def valid_name_def)
qed

lemma Clean_child:
  assumes "filepath_Clean p = p" and "p \<noteq> ''.''" and "p \<noteq> ''/''" and "valid_name name"
  shows "filepath_Clean (p @ ''/'' @ name) = p @ ''/'' @ name"
proof -
  define rooted where "rooted = (hd p = CHR ''/'')"
  define out where "out = foldl (clean_elem rooted) [] (split_sep p)"
  define pre where "pre = (if rooted then ''/'' else [])"
  have p: "p \<noteq> []" using assms(1) by (auto simp: filepath_Clean_def)
  have "filepath_Clean p = (if pre @ join_sep out = [] then ''.'' else pre @ join_sep out)"
    using p by (simp add: filepath_Clean_def Let_def rooted_def out_def pre_def)
  with assms(1,2) have r: "p = pre @ join_sep out" by (auto split: if_splits)
  have out: "out \<noteq> []"
  proof
    assume "out = []"
    with r have "p = pre" by simp
    with p assms(3) show False by (auto simp: pre_def split: if_splits)
  qed
  have hd: "hd (p @ ''/'' @ name) = hd p" using p by simp
  have s: "split_sep (p @ ''/'' @ name) = split_sep p @ [name]"
    using assms(4) by (simp add: split_sep_append split_sep_no_sep valid_name_def)
  have "foldl (clean_elem rooted) [] (split_sep (p @ ''/'' @ name)) = out @ [name]"
    unfolding s using assms(4) by (simp add: out_def clean_elem_valid)
  then have "filepath_Clean (p @ ''/'' @ name) = pre @ join_sep (out @ [name])"
    using p assms(4)
    by (simp add: filepath_Clean_def Let_def hd rooted_def [symmetric] pre_def join_sep_snoc
        valid_name_def)
  also have "\<dots> = p @ ''/'' @ name" using out r by (simp add: join_sep_snoc)
  finally show ?thesis .
qed

lemma Join_child:
  assumes "filepath_Clean p = p" and "p \<noteq> ''.''" and "valid_name name"
  shows "filepath_Join [p, name] = child_path p name"
proof -
  have p: "p \<noteq> []" using assms(1) by (auto simp: filepath_Clean_def)
  then have j: "filepath_Join [p, name] = filepath_Clean (p @ ''/'' @ name)"
    by (simp add: filepath_Join_def)
  show ?thesis
  proof (cases "p = ''/''")
    case True
    then show ?thesis using j Clean_root_child(1) [OF assms(3)] by (simp add: child_path_def)
  next
    case False
    then show ?thesis using j Clean_child [OF assms(1,2) False assms(3)] by (simp add: child_path_def)
  qed
qed

lemma child_path_clean:
  assumes "filepath_Clean p = p" and "p \<noteq> ''.''" and "valid_name name"
  shows "filepath_Clean (child_path p name) = child_path p name \<and> child_path p name \<noteq> ''.''"
proof (cases "p = ''/''")
  case True
  then show ?thesis using Clean_root_child(2) [OF assms(3)] by (simp add: child_path_def)
next
  case False
  have "p \<noteq> []" using assms(1) by (auto simp: filepath_Clean_def)
  then have "length (p @ ''/'' @ name) \<noteq> length ''.''" by (cases p) auto
  then have "p @ ''/'' @ name \<noteq> ''.''" by (metis (full_types))
  then show ?thesis using False Clean_child [OF assms(1,2) False assms(3)] by (simp add: child_path_def)
qed

lemma child_path_under:
  assumes "\<exists>rel. p = root @ rel"
  shows "\<exists>rel. child_path p name = root @ rel"
proof -
  from assms obtain rel where rel: "p = root @ rel" ..
  show ?thesis
  proof (cases "p = ''/''")
    case True
    then have "child_path p name = root @ (rel @ name)"
      using rel by (simp add: child_path_def)
    then show ?thesis ..
  next
    case False
    then have "child_path p name = root @ (rel @ ''/'' @ name)"
      using rel by (simp add: child_path_def)
    then show ?thesis ..
  qed
qed

lemma strings_Index_prefix: "sep \<noteq> [] \<Longrightarrow> strings_Index (sep @ rest) sep = Some 0"
  by (cases sep) auto

lemma strings_SplitN_prefix:
  "root \<noteq> [] \<Longrightarrow> strings_SplitN (root @ rel) root 2 = [[], rel]"
proof -
  assume r: "root \<noteq> []"
  have "genSplit (root @ rel) root (Suc 0) = [[], rel]"
    using r by (simp add: strings_Index_prefix)
  moreover have "nat 2 - 1 = Suc 0" by simp
  ultimately show ?thesis using r by (simp add: strings_SplitN_def)
qed

lemma getPathProcessor_returns_its_error:
  "getPathProcessor rootDir dstDir path info err ch = Inr (ch', err') \<Longrightarrow> err' = err"
  by (auto simp: getPathProcessor_def Let_def split: option.splits if_splits)

lemma getPathProcessor_directory:
  "IsDir i \<Longrightarrow> getPathProcessor rootDir dstDir path (Some i) err ch = Inr (ch, err)"
  by (simp add: getPathProcessor_def)

lemma getPathProcessor_under_root:
  assumes "\<not> IsDir i" and "rootDir \<noteq> []"
  shows "getPathProcessor rootDir dstDir (rootDir @ rel) (Some i) err ch =
     Inr (ch @ [\<lparr>srcPath = rootDir @ rel, dstPath = filepath_Join [dstDir, rel], csum = []\<rparr>], err)"
  using assms by (simp add: getPathProcessor_def strings_SplitN_prefix)

lemma getPathProcessor_not_directory:
  assumes "\<not> IsDir i"
  shows "getPathProcessor rootDir dstDir path (Some i) err ch = Inl IndexOutOfRange
     \<or> (\<exists>d. getPathProcessor rootDir dstDir path (Some i) err ch =
           Inr (ch @ [\<lparr>srcPath = path, dstPath = d, csum = []\<rparr>], err))"
  using assms by (simp add: getPathProcessor_def Let_def)

subsection \<open>The walk of the source roots\<close>

lemma walk_Entry_under_root:
  assumes "root \<noteq> []" and "\<exists>rel. p = root @ rel"
  shows "walk p (Entry m) (getPathProcessor root dst) ch =
     Inr (ch @ map (emitted root dst) (nondirs p (Entry m)), None)"
proof -
  from assms(2) obtain rel where rel: "p = root @ rel" ..
  show ?thesis
  proof (cases "m = ModeDir")
    case True
    then show ?thesis by (simp add: getPathProcessor_directory IsDir_def)
  next
    case False
    then have "\<not> IsDir \<lparr>Mode = m\<rparr>" by (simp add: IsDir_def)
    from getPathProcessor_under_root [OF this assms(1), of dst rel None ch]
    show ?thesis using False rel by (simp add: emitted_def)
  qed
qed

lemma walk_readable:
  "filepath_Clean p = p \<Longrightarrow> p \<noteq> ''.'' \<Longrightarrow> \<exists>rel. p = root @ rel \<Longrightarrow> root \<noteq> [] \<Longrightarrow>
     readable t \<Longrightarrow> fn = getPathProcessor root dst \<Longrightarrow>
     walk p t fn ch = Inr (ch @ map (emitted root dst) (nondirs p t), None)"
  and walk_names_readable:
  "filepath_Clean p = p \<Longrightarrow> p \<noteq> ''.'' \<Longrightarrow> \<exists>rel. p = root @ rel \<Longrightarrow> root \<noteq> [] \<Longrightarrow>
     readable_names names \<Longrightarrow> fn = getPathProcessor root dst \<Longrightarrow>
     walk_names p names fn ch = Inr (ch @ map (emitted root dst) (nondirs_names p names), None)"
proof (induction p t fn ch and p names fn ch rule: walk_walk_names.induct)
  case (1 path m walkFn ch)
  then show ?case using walk_Entry_under_root [of root path m dst ch] by simp
next
  case (2 path e walkFn ch)
  then show ?case by simp
next
  case (3 path e walkFn ch)
  then show ?case by simp
next
  case (4 path names walkFn ch)
  have cb: "walkFn path (Some \<lparr>Mode = ModeDir\<rparr>) None ch = Inr (ch, None)"
    using "4.prems" by (simp add: getPathProcessor_directory IsDir_def)
  have "walk_names path names walkFn ch =
      Inr (ch @ map (emitted root dst) (nondirs_names path names), None)"
    using "4.IH" [OF cb refl] "4.prems" by simp
  then show ?case using cb by simp
next
  case (5 path walkFn ch)
  then show ?case by simp
next
  case (6 path name t names walkFn ch)
  from "6.prems" have v: "valid_name name" and rt: "readable t" and rn: "readable_names names"
    by simp_all
  let ?x = "filepath_Join [path, name]"
  have j: "?x = child_path path name"
    using Join_child [OF "6.prems"(1,2) v] .
  have c: "filepath_Clean ?x = ?x" "?x \<noteq> ''.''"
    using child_path_clean [OF "6.prems"(1,2) v] j by simp_all
  have u: "\<exists>rel. ?x = root @ rel"
    using child_path_under [OF "6.prems"(3)] j by simp
  let ?ch1 = "ch @ map (emitted root dst) (nondirs ?x t)"
  show ?case
  proof (cases t)
    case (Entry m)
    have w: "walk ?x t walkFn ch = Inr (?ch1, None)"
      using "6.IH"(1) [OF refl Entry c u "6.prems"(4) rt "6.prems"(6)] .
    have "walk_names path names walkFn ?ch1 =
        Inr (?ch1 @ map (emitted root dst) (nondirs_names path names), None)"
      using "6.IH"(2) [OF refl Entry w refl _ "6.prems"(1,2,3,4) rn "6.prems"(6)] by simp
    then show ?thesis using w Entry j by (simp add: Let_def)
  next
    case (Directory list)
    have w: "walk ?x t walkFn ch = Inr (?ch1, None)"
      using "6.IH"(3) [OF refl Directory c u "6.prems"(4) rt "6.prems"(6)] .
    have "walk_names path names walkFn ?ch1 =
        Inr (?ch1 @ map (emitted root dst) (nondirs_names path names), None)"
      using "6.IH"(4) [OF refl Directory w refl _ "6.prems"(1,2,3,4) rn "6.prems"(6)] by simp
    then show ?thesis using w Directory j by (simp add: Let_def)
  next
    case (Unreadable e)
    then show ?thesis using rt by simp
  next
    case (Missing e)
    then show ?thesis using rt by simp
  qed
qed

text \<open>
  C9, as amended. When the root is in cleaned form and is not \<open>.\<close>, and nothing fails
  during the walk, the walker sends one work item for every entry below the root that is
  not a directory, whatever its mode (regular file, symbolic link, socket, device, named
  pipe), in the order of the walk, and nothing else; directories are entered and never
  sent. The destination of each item is the destination root joined with the path of
  the entry relative to the root. The loop of \<open>main\<close> goes on with the next root.
\<close>

theorem walker_emits_every_entry_that_is_not_a_directory:
  assumes "filepath_Clean root = root" and "root \<noteq> ''.''" and "readable t"
  shows "filepath_Walk root t (getPathProcessor root dst) ch =
           Inr (ch @ map (emitted root dst) (nondirs root t), None)
       \<and> walk_roots dst ((root, t) # ds) ch =
           walk_roots dst ds (ch @ map (emitted root dst) (nondirs root t))"
proof -
  have r: "root \<noteq> []" using assms(1) by (auto simp: filepath_Clean_def)
  have u: "\<exists>rel. root = root @ rel" by simp
  have "walk root t (getPathProcessor root dst) ch =
      Inr (ch @ map (emitted root dst) (nondirs root t), None)"
    using walk_readable [OF assms(1,2) u r assms(3) refl] .
  then have "filepath_Walk root t (getPathProcessor root dst) ch =
      Inr (ch @ map (emitted root dst) (nondirs root t), None)"
    by (simp add: filepath_Walk_def)
  then show ?thesis by simp
qed

lemma small_tree_nondirs: "nondirs ''A'' small_tree = [''A/link'', ''A/sub/y.txt'', ''A/x.txt'']"
  by (simp add: small_tree_def child_path_def)

lemma small_tree_emitted:
  "map (emitted ''A'' ''D'') [''A/link'', ''A/sub/y.txt'', ''A/x.txt''] =
     [\<lparr>srcPath = ''A/link'', dstPath = ''D/link'', csum = []\<rparr>,
      \<lparr>srcPath = ''A/sub/y.txt'', dstPath = ''D/sub/y.txt'', csum = []\<rparr>,
      \<lparr>srcPath = ''A/x.txt'', dstPath = ''D/x.txt'', csum = []\<rparr>]"
  by code_simp

theorem walker_emits_every_entry_that_is_not_a_directory_witness:
  "filepath_Clean ''A'' = ''A'' \<and> ''A'' \<noteq> ''.'' \<and> readable small_tree
   \<and> filepath_Walk ''A'' small_tree (getPathProcessor ''A'' ''D'') [] =
       Inr ([\<lparr>srcPath = ''A/link'', dstPath = ''D/link'', csum = []\<rparr>,
             \<lparr>srcPath = ''A/sub/y.txt'', dstPath = ''D/sub/y.txt'', csum = []\<rparr>,
             \<lparr>srcPath = ''A/x.txt'', dstPath = ''D/x.txt'', csum = []\<rparr>], None)"
proof -
  have h1: "filepath_Clean ''A'' = ''A''" by (simp add: filepath_Clean_def clean_elem_def)
  have h2: "''A'' \<noteq> ''.''" by simp
  have h3: "readable small_tree" by (simp add: small_tree_def valid_name_def)
  have t: "filepath_Walk ''A'' small_tree (getPathProcessor ''A'' ''D'') [] =
      Inr ([] @ map (emitted ''A'' ''D'') (nondirs ''A'' small_tree), None)"
    using walker_emits_every_entry_that_is_not_a_directory [OF h1 h2 h3, of "''D''" "[]" "[]"]
    by blast
  have e: "[] @ map (emitted ''A'' ''D'') (nondirs ''A'' small_tree) =
      [\<lparr>srcPath = ''A/link'', dstPath = ''D/link'', csum = []\<rparr>,
       \<lparr>srcPath = ''A/sub/y.txt'', dstPath = ''D/sub/y.txt'', csum = []\<rparr>,
       \<lparr>srcPath = ''A/x.txt'', dstPath = ''D/x.txt'', csum = []\<rparr>]"
    by (simp only: small_tree_nondirs small_tree_emitted append_Nil)
  show ?thesis using t h1 h2 h3 unfolding e by blast
qed

text \<open>
  Entries that are not regular files are sent too: the walk of a directory that holds a
  symbolic link and a socket sends both.
\<close>

theorem symlinks_and_sockets_are_emitted:
  "walk_roots ''D'' [(''A'', special_files)] [] =
     Inr [\<lparr>srcPath = ''A/link'', dstPath = ''D/link'', csum = []\<rparr>,
          \<lparr>srcPath = ''A/sock'', dstPath = ''D/sock'', csum = []\<rparr>]
   \<and> special_files = Directory [(''link'', Entry ModeSymlink), (''sock'', Entry ModeSocket)]
   \<and> \<not> IsRegular \<lparr>Mode = ModeSymlink\<rparr> \<and> \<not> IsRegular \<lparr>Mode = ModeSocket\<rparr>"
  by code_simp

text \<open>
  C3 (the code at a failing input). For the root \<open>.\<close>, \<open>Walk\<close> names the file
  \<open>./x.txt\<close> by the cleaned path \<open>x.txt\<close>; the callback cuts that path at the first
  occurrence of the root string, the dot of the extension, and the destination becomes
  \<open>D/txt\<close> where the path relative to the root gives \<open>D/x.txt\<close>.
\<close>

theorem cleaned_root_paths_lose_the_root_prefix:
  "walk_roots ''D'' [(''.'', dot_tree)] [] =
     Inr [\<lparr>srcPath = ''x.txt'', dstPath = ''D/txt'', csum = []\<rparr>]"
  by code_simp

text \<open>
  For the root \<open>./A\<close>, which is not in cleaned form, the root string does not occur in
  the cleaned paths of \<open>Walk\<close>, and the index expression panics. (Not every such root
  fails: a root with a separator at its end still occurs in them.)
\<close>

lemma uncleaned_root_panics:
  "walk_roots ''D'' [(''./A'', dot_tree)] [] = Inl IndexOutOfRange"
  by code_simp

text \<open>
  C10 (the code at a failing input). Whenever the callback is called with a nil
  \<open>FileInfo\<close> it panics, whatever its other arguments; \<open>Walk\<close> makes that call for a root
  whose \<open>Lstat\<close> fails and for an entry of a directory whose \<open>Lstat\<close> fails, and the
  panic ends the program.
\<close>

theorem nil_FileInfo_panics:
  "getPathProcessor rootDir dstDir path None err hashingCh = Inl NilDereference
   \<and> walk_roots dstDir ((rootDir, Missing e) # ds) hashingCh = Inl NilDereference
   \<and> walk_roots dstDir ((rootDir, Directory ((name, Missing e) # names)) # ds) hashingCh
       = Inl NilDereference"
  by (simp add: getPathProcessor_def filepath_Walk_def IsDir_def Let_def)

lemma walk_names_error:
  assumes "walk (filepath_Join [path, name]) t fn ch = Inr (ch1, Some e)" and "e \<noteq> SkipDir"
  shows "walk_names path ((name, t) # names) fn ch = Inr (ch1, Some e)"
  using assms by (cases t) (simp_all add: Let_def)

lemma walk_names_ok:
  assumes "walk (filepath_Join [path, name]) t fn ch = Inr (ch1, None)"
  shows "walk_names path ((name, t) # names) fn ch = walk_names path names fn ch1"
  using assms by (cases t) (simp_all add: Let_def)

lemma walk_names_append:
  "walk_names path before fn ch = Inr (ch1, None) \<Longrightarrow>
     walk_names path (before @ rest) fn ch = walk_names path rest fn ch1"
proof (induction before arbitrary: ch)
  case Nil
  then show ?case by simp
next
  case (Cons a before)
  obtain name t where a: "a = (name, t)" by (cases a)
  let ?x = "filepath_Join [path, name]"
  show ?case
  proof (cases "walk ?x t fn ch")
    case (Inl p)
    then have "walk_names path ((name, t) # before) fn ch = Inl p"
      by (cases t) (simp_all add: Let_def)
    then show ?thesis using Cons.prems a by simp
  next
    case (Inr r)
    obtain ch' err where r: "r = (ch', err)" by (cases r)
    show ?thesis
    proof (cases "err = None \<or> (err = Some SkipDir \<and> (tree_IsDir t \<or> (\<exists>e. t = Missing e)))")
      case True
      then have s: "\<And>ns. walk_names path ((name, t) # ns) fn ch = walk_names path ns fn ch'"
        using Inr r by (cases t) (auto simp: Let_def)
      then have "walk_names path before fn ch' = Inr (ch1, None)"
        using Cons.prems a by simp
      then have "walk_names path (before @ rest) fn ch' = walk_names path rest fn ch1"
        by (rule Cons.IH)
      then show ?thesis using a s by simp
    next
      case False
      then have "walk_names path ((name, t) # before) fn ch = Inr (ch', err)"
        using Inr r by (cases t) (auto simp: Let_def)
      then show ?thesis using Cons.prems a False by auto
    qed
  qed
qed

lemma unreadable_directory_returns_the_error:
  "walk path (Unreadable e) (getPathProcessor d dst) ch = Inr (ch, Some e)"
  by (simp add: getPathProcessor_directory IsDir_def)

lemma error_ends_the_walk_of_the_root:
  assumes "walk_names d before (getPathProcessor d dst) ch = Inr (ch1, None)"
    and "walk (filepath_Join [d, name]) t (getPathProcessor d dst) ch1 = Inr (ch2, Some e)"
    and "e \<noteq> SkipDir"
  shows "filepath_Walk d (Directory (before @ (name, t) # rest)) (getPathProcessor d dst) ch =
           Inr (ch2, Some e)"
proof -
  have "walk_names d (before @ (name, t) # rest) (getPathProcessor d dst) ch =
      walk_names d ((name, t) # rest) (getPathProcessor d dst) ch1"
    using assms(1) by (rule walk_names_append)
  also have "\<dots> = Inr (ch2, Some e)"
    using assms(2,3) by (rule walk_names_error)
  finally have "walk d (Directory (before @ (name, t) # rest)) (getPathProcessor d dst) ch =
      Inr (ch2, Some e)"
    by (simp add: getPathProcessor_directory IsDir_def)
  then show ?thesis using assms(3) by (simp add: filepath_Walk_def)
qed

text \<open>
  C8, as amended. For a traversal error that \<open>Walk\<close> delivers together with a
  \<open>FileInfo\<close> (a directory that cannot be read) the callback returns the error it is
  given. So when the walk of an entry of a root directory returns an error, after the
  entries before it were walked without one, \<open>Walk\<close> returns that error for the root:
  the entries after it are not visited, whatever they are. The loop of \<open>main\<close> drops the
  error and walks the next roots, with the items sent so far. An entry that is a
  directory that cannot be read is such an entry: its walk sends nothing and returns the
  error. (A traversal error delivered with a nil \<open>FileInfo\<close> is not returned: the
  callback panics, see C10.)
\<close>

theorem traversal_error_ends_the_walk_of_its_root_only:
  assumes "walk_names d before (getPathProcessor d dst) ch = Inr (ch1, None)"
    and "walk (filepath_Join [d, name]) t (getPathProcessor d dst) ch1 = Inr (ch2, Some e)"
    and "e \<noteq> SkipDir"
  shows "filepath_Walk d (Directory (before @ (name, t) # rest)) (getPathProcessor d dst) ch =
           Inr (ch2, Some e)
       \<and> walk_roots dst ((d, Directory (before @ (name, t) # rest)) # ds) ch =
           walk_roots dst ds ch2
       \<and> walk (filepath_Join [d, name]) (Unreadable e) (getPathProcessor d dst) ch1 =
           Inr (ch1, Some e)
       \<and> walk_roots dst ((d, Directory (before @ (name, Unreadable e) # rest)) # ds) ch =
           walk_roots dst ds ch1"
proof -
  have a: "filepath_Walk d (Directory (before @ (name, t) # rest)) (getPathProcessor d dst) ch =
      Inr (ch2, Some e)"
    using assms by (rule error_ends_the_walk_of_the_root)
  have u: "walk (filepath_Join [d, name]) (Unreadable e) (getPathProcessor d dst) ch1 =
      Inr (ch1, Some e)"
    by (rule unreadable_directory_returns_the_error)
  have b: "filepath_Walk d (Directory (before @ (name, Unreadable e) # rest))
      (getPathProcessor d dst) ch = Inr (ch1, Some e)"
    using assms(1) u assms(3) by (rule error_ends_the_walk_of_the_root)
  show ?thesis using a u b by simp
qed

lemma walk_before:
  "walk_names ''A'' [(''a.txt'', Entry ModeRegular)] (getPathProcessor ''A'' ''D'') [] =
     Inr ([\<lparr>srcPath = ''A/a.txt'', dstPath = ''D/a.txt'', csum = []\<rparr>], None)"
  by code_simp

lemma walk_bad:
  "walk (filepath_Join [''A'', ''bad'']) (Unreadable EACCES) (getPathProcessor ''A'' ''D'')
      [\<lparr>srcPath = ''A/a.txt'', dstPath = ''D/a.txt'', csum = []\<rparr>] =
     Inr ([\<lparr>srcPath = ''A/a.txt'', dstPath = ''D/a.txt'', csum = []\<rparr>], Some EACCES)"
  by (rule unreadable_directory_returns_the_error)

lemma walk_next_root:
  "walk_roots ''D'' [(''B'', dot_tree)] [\<lparr>srcPath = ''A/a.txt'', dstPath = ''D/a.txt'', csum = []\<rparr>] =
     Inr [\<lparr>srcPath = ''A/a.txt'', dstPath = ''D/a.txt'', csum = []\<rparr>,
          \<lparr>srcPath = ''B/x.txt'', dstPath = ''D/x.txt'', csum = []\<rparr>]"
  by code_simp

theorem traversal_error_ends_the_walk_of_its_root_only_witness:
  "walk_names ''A'' [(''a.txt'', Entry ModeRegular)] (getPathProcessor ''A'' ''D'') [] =
     Inr ([\<lparr>srcPath = ''A/a.txt'', dstPath = ''D/a.txt'', csum = []\<rparr>], None)
   \<and> walk (filepath_Join [''A'', ''bad'']) (Unreadable EACCES) (getPathProcessor ''A'' ''D'')
        [\<lparr>srcPath = ''A/a.txt'', dstPath = ''D/a.txt'', csum = []\<rparr>] =
       Inr ([\<lparr>srcPath = ''A/a.txt'', dstPath = ''D/a.txt'', csum = []\<rparr>], Some EACCES)
   \<and> EACCES \<noteq> SkipDir
   \<and> walk_roots ''D'' [(''A'', error_in_the_middle), (''B'', dot_tree)] [] =
       Inr [\<lparr>srcPath = ''A/a.txt'', dstPath = ''D/a.txt'', csum = []\<rparr>,
            \<lparr>srcPath = ''B/x.txt'', dstPath = ''D/x.txt'', csum = []\<rparr>]"
proof -
  have h3: "EACCES \<noteq> SkipDir" by simp
  have t: "walk_roots ''D'' ((''A'', Directory ([(''a.txt'', Entry ModeRegular)]
        @ (''bad'', Unreadable EACCES) # [(''z.txt'', Entry ModeRegular)])) # [(''B'', dot_tree)]) [] =
      walk_roots ''D'' [(''B'', dot_tree)] [\<lparr>srcPath = ''A/a.txt'', dstPath = ''D/a.txt'', csum = []\<rparr>]"
    using traversal_error_ends_the_walk_of_its_root_only [OF walk_before walk_bad h3] by blast
  have "walk_roots ''D'' [(''A'', error_in_the_middle), (''B'', dot_tree)] [] =
      Inr [\<lparr>srcPath = ''A/a.txt'', dstPath = ''D/a.txt'', csum = []\<rparr>,
           \<lparr>srcPath = ''B/x.txt'', dstPath = ''D/x.txt'', csum = []\<rparr>]"
    unfolding error_in_the_middle_def using t walk_next_root by (simp only:)
  then show ?thesis using walk_before walk_bad h3 by blast
qed

text \<open>
  The entries after a traversal error are not sent: the regular file \<open>A/z.txt\<close> comes
  after a directory that cannot be read, and the walk of \<open>A\<close> sends nothing.
\<close>

theorem entries_after_a_traversal_error_are_not_emitted:
  "walk_roots ''D'' [(''A'', unreadable_first)] [] = Inr []
   \<and> unreadable_first = Directory [(''bad'', Unreadable EACCES), (''z.txt'', Entry ModeRegular)]
   \<and> nondirs ''A'' unreadable_first = [''A/z.txt'']"
  by code_simp

subsection \<open>The pipeline\<close>

lemma a_run_that_drains:
  "schedule [WalkerSend, HashSend, MergeDone, MainReturn] (start [x]) =
     Some \<lparr>walker = [], hashing = HIdle, merging = MIdle, merged = [x], exited = True\<rparr>"
  by (simp add: step_def start_def)

lemma schedule_append:
  "schedule (evs @ evs') s = (case schedule evs s of None \<Rightarrow> None | Some s' \<Rightarrow> schedule evs' s')"
  by (induction evs arbitrary: s) (auto split: option.splits)

lemma one_entry_through:
  "schedule [WalkerSend, HashSend, MergeDone]
      \<lparr>walker = x # xs, hashing = HIdle, merging = MIdle, merged = ms, exited = False\<rparr> =
     Some \<lparr>walker = xs, hashing = HIdle, merging = MIdle, merged = ms @ [x], exited = False\<rparr>"
  by (simp add: step_def)

lemma all_but_the_last_through:
  "schedule (concat (map (\<lambda>x. [WalkerSend, HashSend, MergeDone]) xs) @ [WalkerSend, MainReturn])
      \<lparr>walker = xs @ [x], hashing = HIdle, merging = MIdle, merged = ms, exited = False\<rparr> =
     Some \<lparr>walker = [], hashing = HHolding x, merging = MIdle, merged = ms @ xs, exited = True\<rparr>"
proof (induction xs arbitrary: ms)
  case Nil
  then show ?case by (simp add: step_def)
next
  case (Cons a xs)
  have "schedule (concat (map (\<lambda>x. [WalkerSend, HashSend, MergeDone]) (a # xs)) @ [WalkerSend, MainReturn])
      \<lparr>walker = (a # xs) @ [x], hashing = HIdle, merging = MIdle, merged = ms, exited = False\<rparr> =
    schedule ([WalkerSend, HashSend, MergeDone] @
        (concat (map (\<lambda>x. [WalkerSend, HashSend, MergeDone]) xs) @ [WalkerSend, MainReturn]))
      \<lparr>walker = a # (xs @ [x]), hashing = HIdle, merging = MIdle, merged = ms, exited = False\<rparr>"
    by simp
  also have "\<dots> = schedule (concat (map (\<lambda>x. [WalkerSend, HashSend, MergeDone]) xs) @ [WalkerSend, MainReturn])
      \<lparr>walker = xs @ [x], hashing = HIdle, merging = MIdle, merged = ms @ [a], exited = False\<rparr>"
    by (simp only: schedule_append one_entry_through option.case)
  also have "\<dots> = Some \<lparr>walker = [], hashing = HHolding x, merging = MIdle,
      merged = (ms @ [a]) @ xs, exited = True\<rparr>"
    by (rule Cons.IH)
  finally show ?case by simp
qed

lemma exit_with_two_entries_unprocessed:
  "schedule [WalkerSend, HashSend, WalkerSend, MainReturn] (start [x, y]) =
     Some \<lparr>walker = [], hashing = HHolding y, merging = MProcessing x, merged = [], exited = True\<rparr>"
  by (simp add: step_def start_def)

text \<open>
  C7 (the code at failing inputs). Whatever entries the walker sends, \<open>main\<close> can
  return as soon as \<open>hashFiles\<close> has received the last one: in the run in which every
  entry but the last is hashed and processed at once, the program has exited, the last
  entry was never processed, and no step is possible any more. (With other schedules
  more entries are left: the program can exit while one entry is still being processed
  and the next one is still being hashed. A run in which \<open>main\<close> happens to return
  last drains.)
\<close>

theorem main_returns_with_an_entry_still_unprocessed:
  "schedule (concat (map (\<lambda>x. [WalkerSend, HashSend, MergeDone]) xs) @ [WalkerSend, MainReturn])
      (start (xs @ [x])) =
     Some \<lparr>walker = [], hashing = HHolding x, merging = MIdle, merged = xs, exited = True\<rparr>
   \<and> step ev \<lparr>walker = [], hashing = HHolding x, merging = MIdle, merged = xs, exited = True\<rparr>
       = None"
  using all_but_the_last_through [of xs x "[]"] by (simp add: start_def step_def)

subsection \<open>Digests and transfers\<close>

text \<open>
  Two files with the same bytes get the same digest, and an entry that was transferred
  left the bytes of its source file at its destination.
\<close>

lemma hashFile_same_bytes:
  "map_of fs p = Some (File c) \<Longrightarrow> map_of fs q = Some (File c) \<Longrightarrow>
     hashFile sha256 None None fs p = (sha256 c, None)
     \<and> hashFile sha256 None None fs q = (sha256 c, None)"
  by (simp add: hashFile_def os_Open_def)

lemma os_Rename_None_File:
  "os_Rename flt src dst fs = (None, fs') \<Longrightarrow> map_of fs src = Some (File c) \<Longrightarrow>
     map_of fs' dst = Some (File c) \<and> (src \<noteq> dst \<longrightarrow> map_of fs' src = None)"
  by (auto simp: os_Rename_def update_conv' delete_conv' split: option.splits if_splits node.splits)

lemma transferred_lands:
  assumes "map_of (files w) (srcPath fent) = Some (File c)"
    and "processEntry move fent flt w = (Transferred, w')"
  shows "map_of (files w') (dstPath fent) = Some (File c)"
proof (cases move)
  case False
  then obtain fs1 where cp: "Copy (copy_faults flt) (srcPath fent) (dstPath fent) (files w) = (None, fs1)"
      and w': "files w' = fs1"
    using assms(2)
    by (auto simp: processEntry_def say_def Let_def db_Set_def
        split: prod.splits option.splits if_splits)
  from Copy_None [OF cp] assms(1) w' show ?thesis by auto
next
  case True
  then obtain fs1 where mk: "os_MkdirAll (mkdir_err flt) (filepath_Dir (dstPath fent)) (files w) = (None, fs1)"
    using assms(2)
    by (auto simp: processEntry_def say_def Let_def split: prod.splits option.splits if_splits)
  have s1: "map_of fs1 (srcPath fent) = Some (File c)"
    using os_MkdirAll_keeps [OF assms(1), of "mkdir_err flt" "filepath_Dir (dstPath fent)"] mk
    by simp
  obtain r fs2 where rn: "os_Rename (rename_err flt) (srcPath fent) (dstPath fent) fs1 = (r, fs2)"
    by (cases "os_Rename (rename_err flt) (srcPath fent) (dstPath fent) fs1")
  show ?thesis
  proof (cases r)
    case None
    then have "files w' = fs2"
      using assms(2) True mk rn
      by (auto simp: processEntry_def say_def Let_def split: prod.splits option.splits if_splits)
    then show ?thesis using os_Rename_None_File [OF _ s1] rn None by simp
  next
    case (Some e)
    then have fs2: "fs2 = fs1" using rn os_Rename_Some by blast
    obtain fs3 where cp: "Copy (copy_faults flt) (srcPath fent) (dstPath fent) fs1 = (None, fs3)"
        and w': "files w' = fs3"
      using assms(2) True mk rn Some fs2
      by (auto simp: processEntry_def say_def Let_def split: prod.splits option.splits if_splits)
    from Copy_None [OF cp] s1 w' show ?thesis by auto
  qed
qed

subsection \<open>The digest index and the transfers\<close>

lemma processEntry_new_digest:
  assumes "\<not> get_fails flt" and "index w (csum fent) = None"
  shows "fst (processEntry move fent flt w) =
           (if fst (transfer move fent flt (files w)) = None then Transferred else TransferFailed)"
    and "files (snd (processEntry move fent flt w)) = snd (transfer move fent flt (files w))"
  using assms
  by (auto simp: processEntry_def transfer_def db_Get_def say_def Let_def
      split: prod.splits option.splits)

lemma processEntry_Transferred_iff:
  "(fst (processEntry move fent flt w) = Transferred) =
     (\<not> get_fails flt \<and> index w (csum fent) = None
      \<and> fst (transfer move fent flt (files w)) = None)"
proof (cases "get_fails flt")
  case True
  then show ?thesis by (simp add: processEntry_lookup_fails)
next
  case False
  show ?thesis
  proof (cases "index w (csum fent)")
    case None
    then show ?thesis using False processEntry_new_digest(1) [OF False None, of move] by simp
  next
    case (Some v)
    then show ?thesis using False by (simp add: processEntry_found)
  qed
qed

lemma processEntry_skip_files:
  assumes "get_fails flt \<or> index w (csum fent) \<noteq> None"
  shows "files (snd (processEntry move fent flt w)) = files w"
proof (cases "get_fails flt")
  case True
  then show ?thesis by (simp add: processEntry_lookup_fails say_def)
next
  case False
  with assms obtain v where "index w (csum fent) = Some v" by auto
  then show ?thesis using False by (simp add: processEntry_found)
qed

lemma transfer_cases:
  "fst (transfer False fent flt fs) = fst (Copy (copy_faults flt) (srcPath fent) (dstPath fent) fs)"
  "os_MkdirAll (mkdir_err flt) (filepath_Dir (dstPath fent)) fs = (Some e, fs1) \<Longrightarrow>
     transfer True fent flt fs = (Some e, fs1)"
  "os_MkdirAll (mkdir_err flt) (filepath_Dir (dstPath fent)) fs = (None, fs1) \<Longrightarrow>
     os_Rename (rename_err flt) (srcPath fent) (dstPath fent) fs1 = (None, fs2) \<Longrightarrow>
     transfer True fent flt fs = (None, fs2)"
  "os_MkdirAll (mkdir_err flt) (filepath_Dir (dstPath fent)) fs = (None, fs1) \<Longrightarrow>
     os_Rename (rename_err flt) (srcPath fent) (dstPath fent) fs1 = (Some e, fs2) \<Longrightarrow>
     transfer True fent flt fs = Copy (copy_faults flt) (srcPath fent) (dstPath fent) fs1"
  by (auto simp: transfer_def dest: os_Rename_Some)

lemma step_outcome:
  assumes "n < length items"
  shows "(fst (processFile items move w) ! n = Transferred) =
     (\<not> get_fails (snd (items ! n))
      \<and> index (snd (processFile (take n items) move w)) (csum (fst (items ! n))) = None
      \<and> fst (transfer move (fst (items ! n)) (snd (items ! n))
               (files (snd (processFile (take n items) move w)))) = None)"
  using assms by (simp add: processFile_nth processEntry_Transferred_iff)

lemma step_failed:
  assumes "n < length items"
  shows "(fst (processFile items move w) ! n = TransferFailed) =
     (\<not> get_fails (snd (items ! n))
      \<and> index (snd (processFile (take n items) move w)) (csum (fst (items ! n))) = None
      \<and> fst (transfer move (fst (items ! n)) (snd (items ! n))
               (files (snd (processFile (take n items) move w)))) \<noteq> None)"
proof -
  let ?w = "snd (processFile (take n items) move w)"
  let ?fent = "fst (items ! n)" and ?flt = "snd (items ! n)"
  have "(fst (processEntry move ?fent ?flt ?w) = TransferFailed) =
      (\<not> get_fails ?flt \<and> index ?w (csum ?fent) = None
       \<and> fst (transfer move ?fent ?flt (files ?w)) \<noteq> None)"
  proof (cases "get_fails ?flt")
    case True
    then show ?thesis by (simp add: processEntry_lookup_fails)
  next
    case False
    show ?thesis
    proof (cases "index ?w (csum ?fent)")
      case None
      then show ?thesis using False processEntry_new_digest(1) [OF False None, of move] by simp
    next
      case (Some v)
      then show ?thesis using False by (simp add: processEntry_found)
    qed
  qed
  then show ?thesis using assms by (simp add: processFile_nth)
qed

lemma step_files_new_digest:
  assumes "n < length items" and "\<not> get_fails (snd (items ! n))"
    and "index (snd (processFile (take n items) move w)) (csum (fst (items ! n))) = None"
  shows "files (snd (processFile (take (Suc n) items) move w)) =
     snd (transfer move (fst (items ! n)) (snd (items ! n))
            (files (snd (processFile (take n items) move w))))"
  using assms by (simp add: processFile_step processEntry_new_digest(2))

lemma step_files_skipped:
  assumes "n < length items"
    and "get_fails (snd (items ! n))
       \<or> index (snd (processFile (take n items) move w)) (csum (fst (items ! n))) \<noteq> None"
  shows "files (snd (processFile (take (Suc n) items) move w)) =
     files (snd (processFile (take n items) move w))"
  using assms by (simp add: processFile_step processEntry_skip_files)

lemma step_lands:
  assumes "n < length items" and "fst (processFile items move w) ! n = Transferred"
    and "map_of (files (snd (processFile (take n items) move w))) (srcPath (fst (items ! n)))
           = Some (File c)"
  shows "map_of (files (snd (processFile (take (Suc n) items) move w))) (dstPath (fst (items ! n)))
           = Some (File c)"
proof -
  let ?w = "snd (processFile (take n items) move w)"
  let ?fent = "fst (items ! n)" and ?flt = "snd (items ! n)"
  have "fst (processEntry move ?fent ?flt ?w) = Transferred"
    using assms(1,2) by (simp add: processFile_nth)
  then have "processEntry move ?fent ?flt ?w = (Transferred, snd (processEntry move ?fent ?flt ?w))"
    by (cases "processEntry move ?fent ?flt ?w") simp
  from transferred_lands [OF assms(3) this] show ?thesis
    using assms(1) by (simp add: processFile_step)
qed

text \<open>
  C2. At every point \<open>n\<close> of a run that starts with an empty index, the digests in the
  index are exactly the digests of the entries transferred so far. What is recorded at
  some point is still recorded, with the same value, at the end of the run. The step for
  entry \<open>n\<close> stores \<open>csum \<mapsto> srcPath\<close> when the transfer of the entry succeeded, and
  then the digest was not in the index before; it leaves the index as it is after a
  failed transfer, a duplicate or a failed lookup. An entry counts as transferred
  exactly when its lookup worked, its digest was not in the index and the transfer
  itself (the calls of \<open>os.MkdirAll\<close>, \<open>os.Rename\<close> and \<open>Copy\<close> for the mode of the run, on
  the file system of that point) returned no error; it counts as failed exactly when
  the transfer returned an error. For a new digest the file system after the step is
  the one the transfer leaves; for a duplicate or a failed lookup it is unchanged. After
  a successful transfer of a file its bytes are at the destination path.
\<close>

theorem index_holds_exactly_the_transferred_digests:
  assumes "index w = Map.empty"
  shows "dom (index (snd (processFile (take n items) move w))) =
           csum ` set (transferred (take n items) (fst (processFile (take n items) move w)))
       \<and> index (snd (processFile (take n items) move w)) \<subseteq>\<^sub>m index (snd (processFile items move w))
       \<and> (n < length items \<longrightarrow>
            index (snd (processFile (take (Suc n) items) move w)) =
              (if fst (processFile items move w) ! n = Transferred
               then (index (snd (processFile (take n items) move w)))
                      (csum (fst (items ! n)) \<mapsto> srcPath (fst (items ! n)))
               else index (snd (processFile (take n items) move w)))
          \<and> (fst (processFile items move w) ! n = Transferred \<longrightarrow>
               index (snd (processFile (take n items) move w)) (csum (fst (items ! n))) = None)
          \<and> (fst (processFile items move w) ! n = Transferred) =
               (\<not> get_fails (snd (items ! n))
                \<and> index (snd (processFile (take n items) move w)) (csum (fst (items ! n))) = None
                \<and> fst (transfer move (fst (items ! n)) (snd (items ! n))
                         (files (snd (processFile (take n items) move w)))) = None)
          \<and> (fst (processFile items move w) ! n = TransferFailed) =
               (\<not> get_fails (snd (items ! n))
                \<and> index (snd (processFile (take n items) move w)) (csum (fst (items ! n))) = None
                \<and> fst (transfer move (fst (items ! n)) (snd (items ! n))
                         (files (snd (processFile (take n items) move w)))) \<noteq> None)
          \<and> (\<not> get_fails (snd (items ! n))
               \<and> index (snd (processFile (take n items) move w)) (csum (fst (items ! n))) = None \<longrightarrow>
               files (snd (processFile (take (Suc n) items) move w)) =
                 snd (transfer move (fst (items ! n)) (snd (items ! n))
                        (files (snd (processFile (take n items) move w)))))
          \<and> (get_fails (snd (items ! n))
               \<or> index (snd (processFile (take n items) move w)) (csum (fst (items ! n))) \<noteq> None \<longrightarrow>
               files (snd (processFile (take (Suc n) items) move w)) =
                 files (snd (processFile (take n items) move w)))
          \<and> (\<forall>c. fst (processFile items move w) ! n = Transferred
                 \<and> map_of (files (snd (processFile (take n items) move w)))
                       (srcPath (fst (items ! n))) = Some (File c) \<longrightarrow>
                 map_of (files (snd (processFile (take (Suc n) items) move w)))
                   (dstPath (fst (items ! n))) = Some (File c)))"
proof -
  have d: "dom (index (snd (processFile (take n items) move w))) =
      csum ` set (transferred (take n items) (fst (processFile (take n items) move w)))"
    using assms by (simp add: processFile_dom)
  have m: "index (snd (processFile (take n items) move w)) \<subseteq>\<^sub>m index (snd (processFile items move w))"
    by (rule processFile_index_prefix)
  show ?thesis
  proof (cases "n < length items")
    case False
    then show ?thesis using d m by simp
  next
    case True
    note s = index_step [OF True, of move w] index_step_fresh [OF True, of move w]
      step_outcome [OF True, of move w] step_failed [OF True, of move w]
      step_files_new_digest [OF True, of move w] step_files_skipped [OF True, of move w]
      step_lands [OF True, of move w]
    show ?thesis
      apply (intro conjI impI allI)
              apply (rule d)
             apply (rule m)
            apply (rule s(1))
           apply (erule s(2))
          apply (rule s(3))
         apply (rule s(4))
        apply (rule s(5))
         apply (erule conjunct1)
        apply (erule conjunct2)
       apply (erule s(6))
      apply (rule s(7))
       apply (erule conjunct1)
      apply (erule conjunct2)
      done
  qed
qed

lemma three_items_prefix_copy:
  "transferred (take 2 three_items) (fst (processFile (take 2 three_items) False fresh)) = [entry_A_same]"
  by code_simp

lemma collision_transfer_fails:
  "fst (transfer False (fst (three_items ! 1)) (snd (three_items ! 1))
          (files (snd (processFile (take 1 three_items) False fresh)))) = Some EEXIST"
  by code_simp

lemma move_transfer_succeeds:
  "fst (transfer True (fst (three_items ! 1)) (snd (three_items ! 1))
          (files (snd (processFile (take 1 three_items) True fresh)))) = None"
  "\<not> get_fails (snd (three_items ! 1))"
  "index (snd (processFile (take 1 three_items) True fresh)) (csum (fst (three_items ! 1))) = None"
  "map_of (files (snd (processFile (take 1 three_items) True fresh)))
     (srcPath (fst (three_items ! 1))) = Some (File ''bar'')"
  by code_simp+

lemma mkdir_denied_transfer_fails:
  "fst (transfer True (fst ([(entry_A_same, mkdir_denied)] ! 0)) (snd ([(entry_A_same, mkdir_denied)] ! 0))
          (files (snd (processFile (take 0 [(entry_A_same, mkdir_denied)]) True fresh)))) = Some EACCES"
  by code_simp

lemma mkdir_denied_facts:
  "\<not> get_fails (snd ([(entry_A_same, mkdir_denied)] ! 0))"
  "index (snd (processFile (take 0 [(entry_A_same, mkdir_denied)]) True fresh))
     (csum (fst ([(entry_A_same, mkdir_denied)] ! 0))) = None"
  by code_simp+

theorem index_holds_exactly_the_transferred_digests_witness:
  "index fresh = Map.empty
   \<and> dom (index (snd (processFile (take 2 three_items) False fresh))) = {''digest-foo''}
   \<and> fst (transfer False (fst (three_items ! 1)) (snd (three_items ! 1))
            (files (snd (processFile (take 1 three_items) False fresh)))) = Some EEXIST
   \<and> fst (processFile three_items False fresh) ! 1 = TransferFailed
   \<and> index (snd (processFile (take 2 three_items) False fresh)) ''digest-bar'' = None
   \<and> fst (processFile three_items False fresh) ! 2 = Transferred
   \<and> index (snd (processFile (take (Suc 2) three_items) False fresh)) =
       (index (snd (processFile (take 2 three_items) False fresh)))(''digest-bar'' \<mapsto> ''B/z.txt'')
   \<and> fst (transfer True (fst (three_items ! 1)) (snd (three_items ! 1))
            (files (snd (processFile (take 1 three_items) True fresh)))) = None
   \<and> fst (processFile three_items True fresh) ! 1 = Transferred
   \<and> map_of (files (snd (processFile (take (Suc 1) three_items) True fresh)))
        (dstPath (fst (three_items ! 1))) = Some (File ''bar'')
   \<and> fst (transfer True (fst ([(entry_A_same, mkdir_denied)] ! 0))
            (snd ([(entry_A_same, mkdir_denied)] ! 0))
            (files (snd (processFile (take 0 [(entry_A_same, mkdir_denied)]) True fresh))))
       = Some EACCES
   \<and> fst (processFile [(entry_A_same, mkdir_denied)] True fresh) ! 0 = TransferFailed
   \<and> index (snd (processFile (take (Suc 0) [(entry_A_same, mkdir_denied)]) True fresh)) =
       index (snd (processFile (take 0 [(entry_A_same, mkdir_denied)]) True fresh))"
proof -
  have e: "index fresh = Map.empty" by (simp add: fresh_def)
  have l1: "(1::nat) < length three_items" and l2: "(2::nat) < length three_items"
    by (simp_all add: three_items_def)
  have l0: "(0::nat) < length [(entry_A_same, mkdir_denied)]" by simp
  have c: "csum (fst (three_items ! 2)) = ''digest-bar''" "srcPath (fst (three_items ! 2)) = ''B/z.txt''"
    by (simp_all add: three_items_def entry_B_z_def)
  have a: "csum entry_A_same = ''digest-foo''" by (simp add: entry_A_same_def)
  note copy2 = index_holds_exactly_the_transferred_digests [OF e, of 2 three_items False]
  note move1 = index_holds_exactly_the_transferred_digests [OF e, of 1 three_items True]
  note deny0 = index_holds_exactly_the_transferred_digests
    [OF e, of 0 "[(entry_A_same, mkdir_denied)]" True]
  have r1: "fst (processFile three_items False fresh) ! 1 = TransferFailed"
    and r2: "fst (processFile three_items False fresh) ! 2 = Transferred"
    by (simp_all add: run_copy_outcomes)
  have p1: "dom (index (snd (processFile (take 2 three_items) False fresh))) = {''digest-foo''}"
  proof -
    have "dom (index (snd (processFile (take 2 three_items) False fresh))) =
        csum ` set (transferred (take 2 three_items)
          (fst (processFile (take 2 three_items) False fresh)))"
      using copy2 by blast
    then show ?thesis by (simp add: three_items_prefix_copy a)
  qed
  have p2: "index (snd (processFile (take 2 three_items) False fresh)) ''digest-bar'' = None"
  proof -
    have "index (snd (processFile (take 2 three_items) False fresh))
        (csum (fst (three_items ! 2))) = None"
      using copy2 l2 r2 by blast
    then show ?thesis by (simp only: c)
  qed
  have p3: "index (snd (processFile (take (Suc 2) three_items) False fresh)) =
      (index (snd (processFile (take 2 three_items) False fresh)))(''digest-bar'' \<mapsto> ''B/z.txt'')"
  proof -
    have "index (snd (processFile (take (Suc 2) three_items) False fresh)) =
        (if fst (processFile three_items False fresh) ! 2 = Transferred
         then (index (snd (processFile (take 2 three_items) False fresh)))
                (csum (fst (three_items ! 2)) \<mapsto> srcPath (fst (three_items ! 2)))
         else index (snd (processFile (take 2 three_items) False fresh)))"
      using copy2 l2 by blast
    then show ?thesis by (simp add: r2 c)
  qed
  have m1: "fst (processFile three_items True fresh) ! 1 = Transferred"
    using move1 l1 move_transfer_succeeds(1,2,3) by blast
  have m2: "map_of (files (snd (processFile (take (Suc 1) three_items) True fresh)))
      (dstPath (fst (three_items ! 1))) = Some (File ''bar'')"
    using move1 l1 m1 move_transfer_succeeds(4) by blast
  have d1: "fst (processFile [(entry_A_same, mkdir_denied)] True fresh) ! 0 = TransferFailed"
    using deny0 l0 mkdir_denied_facts mkdir_denied_transfer_fails by auto
  have d2: "index (snd (processFile (take (Suc 0) [(entry_A_same, mkdir_denied)]) True fresh)) =
      index (snd (processFile (take 0 [(entry_A_same, mkdir_denied)]) True fresh))"
  proof -
    have "index (snd (processFile (take (Suc 0) [(entry_A_same, mkdir_denied)]) True fresh)) =
        (if fst (processFile [(entry_A_same, mkdir_denied)] True fresh) ! 0 = Transferred
         then (index (snd (processFile (take 0 [(entry_A_same, mkdir_denied)]) True fresh)))
                (csum (fst ([(entry_A_same, mkdir_denied)] ! 0))
                   \<mapsto> srcPath (fst ([(entry_A_same, mkdir_denied)] ! 0)))
         else index (snd (processFile (take 0 [(entry_A_same, mkdir_denied)]) True fresh)))"
      using deny0 l0 by blast
    then show ?thesis by (simp add: d1)
  qed
  show ?thesis
    using e p1 collision_transfer_fails r1 p2 r2 p3 move_transfer_succeeds(1) m1 m2
      mkdir_denied_transfer_fails d1 d2
    by blast
qed

end
